theory Spec2Isabelle
  imports Main "HOL-Library.Word"
begin

unbundle bit_operations_syntax

section \<open>Outcomes and buffers\<close>

text \<open>
  A kernel routine either returns, or it does not: \<open>panic\<close> prints its message and
  spins for ever, \<open>sleep_on\<close> suspends the caller until another process wakes it (no
  other process runs in this sequential model), and a read through a null pointer or
  past the end of a fixed array is outside the C semantics.  The three ways of not
  returning are the values of \<open>error\<close>.
\<close>

datatype error = Panic string | Sleeps | Fault

text \<open>
  A buffer of the buffer cache, as \<open>bread\<close> hands it out: the block it holds and its
  bytes.  \<open>b_data\<close> is a \<open>char *\<close>; it is read here at any offset, as pointer
  arithmetic does.
\<close>

record buffer_head =
  b_blocknr :: "32 word"
  b_data :: "nat \<Rightarrow> 8 word"

section \<open>ext2: counting free bits (\<open>ext2_counts_free\<close>)\<close>

definition nibblemap :: "int list" where
  "nibblemap = [4, 3, 3, 2, 3, 2, 2, 1, 3, 2, 2, 1, 2, 1, 1, 0]"

text \<open>
  \<open>map->b_data[i]\<close> is a (signed) \<open>char\<close>, promoted to \<open>int\<close> before \<open>&\<close> and
  \<open>>>\<close>: sign extension, and an arithmetic shift.
\<close>

definition char_to_int :: "8 word \<Rightarrow> 32 word" where
  "char_to_int c = scast c"

definition free_in_char :: "8 word \<Rightarrow> int" where
  "free_in_char c =
     nibblemap ! unat (char_to_int c AND 0xf) +
     nibblemap ! unat (signed_drop_bit 4 (char_to_int c) AND 0xf)"

text \<open>The \<open>for\<close> loop of \<open>ext2_counts_free\<close>, \<open>acc\<close> being its \<open>sum\<close>.\<close>

function counts_free_loop :: "(nat \<Rightarrow> 8 word) \<Rightarrow> nat \<Rightarrow> nat \<Rightarrow> 32 word \<Rightarrow> 32 word" where
  "counts_free_loop dat numchars i acc =
     (if i < numchars
      then counts_free_loop dat numchars (i + 1) (acc + word_of_int (free_in_char (dat i)))
      else acc)"
  by pat_completeness auto
termination
  by (relation "measure (\<lambda>(dat, numchars, i, acc). numchars - i)") auto

declare counts_free_loop.simps [simp del]

definition ext2_counts_free :: "buffer_head option \<Rightarrow> 32 word \<Rightarrow> 32 word" where
  "ext2_counts_free bmap numchars =
     (case bmap of
        None \<Rightarrow> 0
      | Some bh \<Rightarrow> counts_free_loop (b_data bh) (unat numchars) 0 0)"

text \<open>What the count is compared with: the zero bits of a byte, and of the first \<open>n\<close> bytes.\<close>

definition zero_bits :: "8 word \<Rightarrow> nat" where
  "zero_bits c = length (filter (\<lambda>k. \<not> bit c k) [0..<8])"

definition zero_bits_in :: "(nat \<Rightarrow> 8 word) \<Rightarrow> nat \<Rightarrow> nat" where
  "zero_bits_in dat n = sum_list (map (\<lambda>i. zero_bits (dat i)) [0..<n])"

definition zeros4 :: "nat \<Rightarrow> nat" where
  "zeros4 x = length (filter (\<lambda>k. \<not> bit x k) [0..<4])"

section \<open>ext2: reading a block (\<open>bread\<close>)\<close>

text \<open>
  The block device as \<open>bread\<close> sees it: the buffer of a block, or nothing where the
  read fails (\<open>bread\<close> returns \<open>NULL\<close>).  \<open>bread\<close> belongs to the buffer cache,
  which is not part of these sources; every call here is on the one device of the
  mounted file system.
\<close>

type_synonym disk = "32 word \<Rightarrow> buffer_head option"

definition bread :: "disk \<Rightarrow> 32 word \<Rightarrow> buffer_head option" where
  "bread dsk block = dsk block"

section \<open>ext2: the super block and its bitmap caches\<close>

text \<open>A group descriptor, as the code reads its fields.\<close>

record ext2_group_desc =
  bg_block_bitmap :: "32 word"
  bg_inode_bitmap :: "32 word"
  bg_inode_table :: "32 word"
  bg_free_blocks_count :: "16 word"
  bg_free_inodes_count :: "16 word"
  bg_used_dirs_count :: "16 word"

text \<open>A \<open>printk\<close> call: the format (without its trailing newline) and the arguments.\<close>

type_synonym message = "string \<times> int list"

text \<open>
  The state the ext2 routines work on.  The first group of fields is the super block:
  its lock, the values of \<open>s_es\<close> and \<open>u.ext2_sb\<close> that the routines read (the macros
  \<open>EXT2_BLOCKS_PER_GROUP\<close>, \<open>EXT2_INODES_PER_GROUP\<close> and \<open>EXT2_DESC_PER_BLOCK\<close> of
  the absent header are the fields \<open>s_blocks_per_group\<close>, \<open>s_inodes_per_group\<close> and
  \<open>s_desc_per_block\<close>), the loaded group-descriptor blocks (each viewed as an array of
  descriptors, \<open>None\<close> for a null buffer pointer), and the two bitmap caches: a count
  of loaded entries and two parallel arrays of \<open>EXT2_MAX_GROUP_LOADED\<close> slots, the
  group number and the buffer.  The last three fields are the surroundings: the disk
  behind \<open>bread\<close>, what \<open>printk\<close> has printed, and the buffers handed to \<open>brelse\<close>.
\<close>

record ext2_super_block =
  s_lock :: bool
  s_blocksize :: "32 word"
  s_first_data_block :: "32 word"
  s_free_blocks_count :: "32 word"
  s_free_inodes_count :: "32 word"
  s_blocks_per_group :: "32 word"
  s_inodes_per_group :: "32 word"
  s_desc_per_block :: "32 word"
  s_itb_per_group :: "32 word"
  s_groups_count :: "32 word"
  s_group_desc :: "nat \<Rightarrow> (nat \<Rightarrow> ext2_group_desc) option"
  s_loaded_inode_bitmaps :: nat
  s_loaded_block_bitmaps :: nat
  s_inode_bitmap_number :: "32 word list"
  s_inode_bitmap :: "buffer_head option list"
  s_block_bitmap_number :: "32 word list"
  s_block_bitmap :: "buffer_head option list"
  s_disk :: disk
  printk_log :: "message list"
  brelse_log :: "buffer_head option list"

text \<open>
  The capacity of each bitmap cache, a constant of the absent header
  \<open>linux/ext2_fs_sb.h\<close>; 8 is its value in the kernel this code is written against.
  The cache arrays have this many slots.
\<close>

definition EXT2_MAX_GROUP_LOADED :: nat where
  "EXT2_MAX_GROUP_LOADED = 8"

definition printk :: "string \<Rightarrow> int list \<Rightarrow> ext2_super_block \<Rightarrow> ext2_super_block" where
  "printk fmt args sb = sb\<lparr>printk_log := printk_log sb @ [(fmt, args)]\<rparr>"

definition brelse :: "buffer_head option \<Rightarrow> ext2_super_block \<Rightarrow> ext2_super_block" where
  "brelse bh sb = sb\<lparr>brelse_log := brelse_log sb @ [bh]\<rparr>"

definition get_group_desc :: "ext2_super_block \<Rightarrow> 32 word \<Rightarrow> error + ext2_group_desc" where
  "get_group_desc sb block_group =
     (if block_group \<ge> s_groups_count sb
      then Inl (Panic ''get_group_desc: block_group > groups_count'')
      else if s_desc_per_block sb = 0 then Inl Fault
      else
        let group_desc = block_group div s_desc_per_block sb;
            desc = block_group mod s_desc_per_block sb
        in (case s_group_desc sb (unat group_desc) of
              None \<Rightarrow> Inl (Panic ''Group descriptor not loaded'')
            | Some gdp \<Rightarrow> Inr (gdp (unat desc))))"

definition read_block_bitmap :: "ext2_super_block \<Rightarrow> 32 word \<Rightarrow> nat \<Rightarrow> error + ext2_super_block" where
  "read_block_bitmap sb block_group bitmap_nr =
     (case get_group_desc sb block_group of
        Inl e \<Rightarrow> Inl e
      | Inr gdp \<Rightarrow>
          let bh = bread (s_disk sb) (bg_block_bitmap gdp);
              sb = (if bh = None then printk ''Cannot read block bitmap'' [] sb else sb)
          in Inr (sb\<lparr>s_block_bitmap_number := (s_block_bitmap_number sb)[bitmap_nr := block_group],
                      s_block_bitmap := (s_block_bitmap sb)[bitmap_nr := bh]\<rparr>))"

text \<open>
  The search loop \<open>for (i = 0; i < loaded && number[i] != block_group; i++)\<close>.  Reading
  \<open>number[i]\<close> past the last slot of the array is a fault.
\<close>

function lru_search :: "32 word list \<Rightarrow> nat \<Rightarrow> 32 word \<Rightarrow> nat \<Rightarrow> error + nat" where
  "lru_search numbers loaded block_group i =
     (if i < loaded
      then if i < EXT2_MAX_GROUP_LOADED
           then if numbers ! i \<noteq> block_group
                then lru_search numbers loaded block_group (i + 1)
                else Inr i
           else Inl Fault
      else Inr i)"
  by pat_completeness auto
termination
  by (relation "measure (\<lambda>(numbers, loaded, block_group, i). loaded - i)") auto

declare lru_search.simps [simp del]

text \<open>
  The shifting loop \<open>for (j = i; j > 0; j--) { number[j] = number[j - 1];
  bitmap[j] = bitmap[j - 1]; }\<close> on the two arrays.
\<close>

primrec shift_entries :: "nat \<Rightarrow> 'a list \<times> 'b list \<Rightarrow> 'a list \<times> 'b list" where
  "shift_entries 0 c = c"
| "shift_entries (Suc j) c =
     shift_entries j ((fst c)[Suc j := fst c ! j], (snd c)[Suc j := snd c ! j])"

definition load__block_bitmap :: "ext2_super_block \<Rightarrow> 32 word \<Rightarrow> error + (ext2_super_block \<times> nat)" where
  "load__block_bitmap sb block_group =
     (if block_group \<ge> s_groups_count sb then Inl (Panic ''block_group >= groups_count'')
      else if s_groups_count sb \<le> of_nat EXT2_MAX_GROUP_LOADED then
        (if s_block_bitmap sb ! unat block_group \<noteq> None then
           (if s_block_bitmap_number sb ! unat block_group \<noteq> block_group
            then Inl (Panic ''block_group != block_bitmap_number'')
            else Inr (sb, unat block_group))
         else
           (case read_block_bitmap sb block_group (unat block_group) of
              Inl e \<Rightarrow> Inl e
            | Inr sb \<Rightarrow> Inr (sb, unat block_group)))
      else
        (case lru_search (s_block_bitmap_number sb) (s_loaded_block_bitmaps sb) block_group 0 of
           Inl e \<Rightarrow> Inl e
         | Inr i \<Rightarrow>
             if i < s_loaded_block_bitmaps sb \<and> s_block_bitmap_number sb ! i = block_group then
               let block_bitmap_number = s_block_bitmap_number sb ! i;
                   block_bitmap = s_block_bitmap sb ! i;
                   (numbers, bitmaps) = shift_entries i (s_block_bitmap_number sb, s_block_bitmap sb)
               in Inr (sb\<lparr>s_block_bitmap_number := numbers[0 := block_bitmap_number],
                           s_block_bitmap := bitmaps[0 := block_bitmap]\<rparr>, 0)
             else
               let sb = (if s_loaded_block_bitmaps sb < EXT2_MAX_GROUP_LOADED
                         then sb\<lparr>s_loaded_block_bitmaps := s_loaded_block_bitmaps sb + 1\<rparr>
                         else brelse (s_block_bitmap sb ! (EXT2_MAX_GROUP_LOADED - 1)) sb);
                   (numbers, bitmaps) =
                      shift_entries (s_loaded_block_bitmaps sb - 1)
                        (s_block_bitmap_number sb, s_block_bitmap sb)
               in (case read_block_bitmap
                          (sb\<lparr>s_block_bitmap_number := numbers, s_block_bitmap := bitmaps\<rparr>)
                          block_group 0 of
                     Inl e \<Rightarrow> Inl e
                   | Inr sb \<Rightarrow> Inr (sb, 0))))"

definition load_block_bitmap :: "ext2_super_block \<Rightarrow> 32 word \<Rightarrow> error + (ext2_super_block \<times> nat)" where
  "load_block_bitmap sb block_group =
     (if s_loaded_block_bitmaps sb > 0 \<and> s_block_bitmap_number sb ! 0 = block_group
      then Inr (sb, 0)
      else if s_groups_count sb \<le> of_nat EXT2_MAX_GROUP_LOADED \<and>
              \<not> unat block_group < EXT2_MAX_GROUP_LOADED
      then Inl Fault
      else if s_groups_count sb \<le> of_nat EXT2_MAX_GROUP_LOADED \<and>
              s_block_bitmap_number sb ! unat block_group = block_group \<and>
              s_block_bitmap sb ! unat block_group \<noteq> None
      then Inr (sb, unat block_group)
      else load__block_bitmap sb block_group)"


definition read_inode_bitmap :: "ext2_super_block \<Rightarrow> 32 word \<Rightarrow> nat \<Rightarrow> error + ext2_super_block" where
  "read_inode_bitmap sb block_group bitmap_nr =
     (case get_group_desc sb block_group of
        Inl e \<Rightarrow> Inl e
      | Inr gdp \<Rightarrow>
          (case bread (s_disk sb) (bg_inode_bitmap gdp) of
             None \<Rightarrow> Inl (Panic ''cannot read inode bitmap'')
           | Some bh \<Rightarrow>
               Inr (sb\<lparr>s_inode_bitmap_number := (s_inode_bitmap_number sb)[bitmap_nr := block_group],
                       s_inode_bitmap := (s_inode_bitmap sb)[bitmap_nr := Some bh]\<rparr>)))"

definition load_inode_bitmap :: "ext2_super_block \<Rightarrow> 32 word \<Rightarrow> error + (ext2_super_block \<times> nat)" where
  "load_inode_bitmap sb0 block_group =
     (let sb = (if block_group \<ge> s_groups_count sb0
                then printk ''block_group >= groups_count'' [] sb0 else sb0)
      in
      if s_loaded_inode_bitmaps sb > 0 \<and> s_inode_bitmap_number sb ! 0 = block_group
      then Inr (sb, 0)
      else if s_groups_count sb \<le> of_nat EXT2_MAX_GROUP_LOADED then
        (if \<not> unat block_group < EXT2_MAX_GROUP_LOADED then Inl Fault
         else if s_inode_bitmap sb ! unat block_group \<noteq> None then
           (if s_inode_bitmap_number sb ! unat block_group \<noteq> block_group
            then Inl (Panic ''block_group != inode_bitmap_number'')
            else Inr (sb, unat block_group))
         else
           (case read_inode_bitmap sb block_group (unat block_group) of
              Inl e \<Rightarrow> Inl e
            | Inr sb \<Rightarrow> Inr (sb, unat block_group)))
      else
        (case lru_search (s_inode_bitmap_number sb) (s_loaded_inode_bitmaps sb) block_group 0 of
           Inl e \<Rightarrow> Inl e
         | Inr i \<Rightarrow>
             if i < s_loaded_inode_bitmaps sb \<and> s_inode_bitmap_number sb ! i = block_group then
               let inode_bitmap_number = s_inode_bitmap_number sb ! i;
                   inode_bitmap = s_inode_bitmap sb ! i;
                   (numbers, bitmaps) = shift_entries i (s_inode_bitmap_number sb, s_inode_bitmap sb)
               in Inr (sb\<lparr>s_inode_bitmap_number := numbers[0 := inode_bitmap_number],
                           s_inode_bitmap := bitmaps[0 := inode_bitmap]\<rparr>, 0)
             else
               let sb = (if s_loaded_inode_bitmaps sb < EXT2_MAX_GROUP_LOADED
                         then sb\<lparr>s_loaded_inode_bitmaps := s_loaded_inode_bitmaps sb + 1\<rparr>
                         else brelse (s_inode_bitmap sb ! (EXT2_MAX_GROUP_LOADED - 1)) sb);
                   (numbers, bitmaps) =
                      shift_entries (s_loaded_inode_bitmaps sb - 1)
                        (s_inode_bitmap_number sb, s_inode_bitmap sb)
               in (case read_inode_bitmap
                          (sb\<lparr>s_inode_bitmap_number := numbers, s_inode_bitmap := bitmaps\<rparr>)
                          block_group 0 of
                     Inl e \<Rightarrow> Inl e
                   | Inr sb \<Rightarrow> Inr (sb, 0))))"

text \<open>
  \<open>lock_super\<close> and \<open>unlock_super\<close> (\<open>linux/locks.h\<close>, outside these sources): the
  caller sleeps while the super block is locked, then takes the lock; unlocking clears
  it.
\<close>

definition lock_super :: "ext2_super_block \<Rightarrow> error + ext2_super_block" where
  "lock_super sb = (if s_lock sb then Inl Sleeps else Inr (sb\<lparr>s_lock := True\<rparr>))"

definition unlock_super :: "ext2_super_block \<Rightarrow> ext2_super_block" where
  "unlock_super sb = sb\<lparr>s_lock := False\<rparr>"

text \<open>\<open>test_bit\<close> (\<open>asm/bitops.h\<close>): bit \<open>nr\<close> of the bit string at \<open>addr\<close>.\<close>

definition test_bit :: "nat \<Rightarrow> (nat \<Rightarrow> 8 word) \<Rightarrow> bool" where
  "test_bit nr addr = bit (addr (nr div 8)) (nr mod 8)"

definition block_in_use :: "32 word \<Rightarrow> ext2_super_block \<Rightarrow> (nat \<Rightarrow> 8 word) \<Rightarrow> bool" where
  "block_in_use block sb bmap =
     test_bit (unat ((block - s_first_data_block sb) mod s_blocks_per_group sb)) bmap"

text \<open>
  The body of the loop over the groups in \<open>ext2_check_block_bitmap\<close>, in two parts.
  The second half, from the first \<open>test_bit\<close> on, only reads the bitmap buffer \<open>bh\<close>
  and prints; it yields the free count \<open>x\<close> of the bitmap.  The last message prints
  \<open>j\<close>, the counter of the loop before it.
\<close>

definition report_block_group ::
  "32 word \<Rightarrow> nat \<Rightarrow> ext2_group_desc \<Rightarrow> buffer_head \<Rightarrow> ext2_super_block
     \<Rightarrow> ext2_super_block \<times> 32 word" where
  "report_block_group desc_blocks i gdp bh sb0 =
     (let sb = (if \<not> test_bit 0 (b_data bh)
                then printk ''Superblock in group %d is marked free'' [int i] sb0
                else sb0);
          sb = fold (\<lambda>j sb.
                 if \<not> test_bit (j + 1) (b_data bh)
                 then printk ''Descriptor block %d in group is marked free'' [int j] sb
                 else sb) [0..<unat desc_blocks] sb;
          sb = (if \<not> block_in_use (bg_block_bitmap gdp) sb (b_data bh)
                then printk ''Block bitmap for group %d is marked free'' [int i] sb
                else sb);
          sb = (if \<not> block_in_use (bg_inode_bitmap gdp) sb (b_data bh)
                then printk ''Inode bitmap for group %d is marked free'' [int i] sb
                else sb);
          sb = fold (\<lambda>j sb.
                 if \<not> block_in_use (bg_inode_table gdp + of_nat j) sb (b_data bh)
                 then printk ''Block %d of the inode table is marked free'' [int j] sb
                 else sb) [0..<unat (s_itb_per_group sb)] sb;
          x = ext2_counts_free (Some bh) (s_blocksize sb);
          sb = (if ucast (bg_free_blocks_count gdp) \<noteq> x
                then printk ''Wrong free blocks count for group %d''
                       [int (unat (s_itb_per_group sb))] sb
                else sb)
      in (sb, x))"

text \<open>
  The whole body; the state of the loop is the super block and the two running sums.
  A null \<open>bh\<close> is dereferenced by \<open>test_bit(0, bh->b_data)\<close>, and \<open>block_in_use\<close>
  divides by the number of blocks per group.
\<close>

definition check_block_group ::
  "32 word \<Rightarrow> nat \<Rightarrow> ext2_super_block \<times> 32 word \<times> 32 word
     \<Rightarrow> error + (ext2_super_block \<times> 32 word \<times> 32 word)" where
  "check_block_group desc_blocks i st =
     (case st of (sb, desc_count, bitmap_count) \<Rightarrow>
      (case get_group_desc sb (of_nat i) of
        Inl e \<Rightarrow> Inl e
      | Inr gdp \<Rightarrow>
          let desc_count = desc_count + ucast (bg_free_blocks_count gdp) in
          (case load_block_bitmap sb (of_nat i) of
             Inl e \<Rightarrow> Inl e
           | Inr (sb, bitmap_nr) \<Rightarrow>
               (case s_block_bitmap sb ! bitmap_nr of
                  None \<Rightarrow> Inl Fault
                | Some bh \<Rightarrow>
                    if s_blocks_per_group sb = 0 then Inl Fault
                    else
                      (case report_block_group desc_blocks i gdp bh sb of
                         (sb, x) \<Rightarrow> Inr (sb, desc_count, bitmap_count + x))))))"

text \<open>\<open>for (i = 0; i < s_groups_count; i++)\<close>, stopping where the body does not return.\<close>

function for_each_group ::
  "(nat \<Rightarrow> 'a \<Rightarrow> error + 'a) \<Rightarrow> nat \<Rightarrow> nat \<Rightarrow> 'a \<Rightarrow> error + 'a" where
  "for_each_group body n i st =
     (if i < n
      then (case body i st of Inl e \<Rightarrow> Inl e | Inr st \<Rightarrow> for_each_group body n (i + 1) st)
      else Inr st)"
  by pat_completeness auto
termination
  by (relation "measure (\<lambda>(body, n, i, st). n - i)") auto

declare for_each_group.simps [simp del]

definition ext2_check_block_bitmap :: "ext2_super_block \<Rightarrow> error + ext2_super_block" where
  "ext2_check_block_bitmap sb0 =
     (case lock_super sb0 of
        Inl e \<Rightarrow> Inl e
      | Inr sb \<Rightarrow>
          if s_desc_per_block sb = 0 then Inl Fault
          else
            let desc_blocks = (s_groups_count sb + s_desc_per_block sb - 1) div s_desc_per_block sb
            in (case for_each_group (check_block_group desc_blocks)
                       (unat (s_groups_count sb)) 0 (sb, 0, 0) of
                  Inl e \<Rightarrow> Inl e
                | Inr (sb, desc_count, bitmap_count) \<Rightarrow>
                    let sb = (if s_free_blocks_count sb \<noteq> bitmap_count
                              then printk ''Wrong free blocks count in super block'' [] sb
                              else sb)
                    in Inr (unlock_super sb)))"

definition check_inode_group ::
  "nat \<Rightarrow> ext2_super_block \<times> 32 word \<times> 32 word \<Rightarrow> error + (ext2_super_block \<times> 32 word \<times> 32 word)" where
  "check_inode_group i st =
     (case st of (sb, desc_count, bitmap_count) \<Rightarrow>
      (case get_group_desc sb (of_nat i) of
        Inl e \<Rightarrow> Inl e
      | Inr gdp \<Rightarrow>
          let desc_count = desc_count + ucast (bg_free_inodes_count gdp) in
          (case load_inode_bitmap sb (of_nat i) of
             Inl e \<Rightarrow> Inl e
           | Inr (sb, bitmap_nr) \<Rightarrow>
               let x = ext2_counts_free (s_inode_bitmap sb ! bitmap_nr)
                         (s_inodes_per_group sb div 8);
                   sb = (if ucast (bg_free_inodes_count gdp) \<noteq> x
                         then printk ''Wrong free inodes count in group %d'' [int i] sb
                         else sb)
               in Inr (sb, desc_count, bitmap_count + x))))"

definition ext2_check_inode_bitmap :: "ext2_super_block \<Rightarrow> error + ext2_super_block" where
  "ext2_check_inode_bitmap sb0 =
     (case lock_super sb0 of
        Inl e \<Rightarrow> Inl e
      | Inr sb \<Rightarrow>
          (case for_each_group check_inode_group (unat (s_groups_count sb)) 0 (sb, 0, 0) of
             Inl e \<Rightarrow> Inl e
           | Inr (sb, desc_count, bitmap_count) \<Rightarrow>
               let sb = (if s_free_inodes_count sb \<noteq> bitmap_count
                         then printk ''Wrong free inodes count in super block'' [] sb
                         else sb)
               in Inr (unlock_super sb)))"

text \<open>
  The loop of \<open>ext2_check_descriptors\<close>: \<open>i\<close>, \<open>desc_block\<close>, \<open>block\<close> and the pointer
  \<open>gdp\<close> (a descriptor array and an index into it; \<open>None\<close> is the initial \<open>NULL\<close>).
\<close>

function check_descriptors_loop ::
  "ext2_super_block \<Rightarrow> nat \<Rightarrow> nat \<Rightarrow> 32 word \<Rightarrow> ((nat \<Rightarrow> ext2_group_desc) \<times> nat) option
     \<Rightarrow> error + (ext2_super_block \<times> int)" where
  "check_descriptors_loop sb i desc_block block gdp =
     (if i < unat (s_groups_count sb) then
        if s_desc_per_block sb = 0 then Inl Fault
        else
          (case (if (of_nat i :: 32 word) mod s_desc_per_block sb = 0
                 then (case s_group_desc sb desc_block of
                         None \<Rightarrow> Inl Fault
                       | Some g \<Rightarrow> Inr (Some (g, 0), desc_block + 1))
                 else Inr (gdp, desc_block)) of
             Inl e \<Rightarrow> Inl e
           | Inr (gdp, desc_block) \<Rightarrow>
               (case gdp of
                  None \<Rightarrow> Inl Fault
                | Some (g, k) \<Rightarrow>
                    if bg_block_bitmap (g k) < block \<or>
                       bg_block_bitmap (g k) \<ge> block + s_blocks_per_group sb
                    then Inr (printk ''EXT2-fs: block bitmap for group no in group'' [] sb, 0)
                    else if bg_inode_bitmap (g k) < block \<or>
                            bg_inode_bitmap (g k) \<ge> block + s_blocks_per_group sb
                    then Inr (printk ''EXT2-fs: inode bitmap for group no in group'' [] sb, 0)
                    else if bg_inode_table (g k) < block \<or>
                            bg_inode_table (g k) \<ge> block + s_blocks_per_group sb
                    then Inr (printk ''EXT2-fs: inode table for group no in group'' [] sb, 0)
                    else check_descriptors_loop sb (i + 1) desc_block
                           (block + s_blocks_per_group sb) (Some (g, k + 1))))
      else Inr (sb, 1))"
  by pat_completeness auto
termination
  by (relation "measure (\<lambda>(sb, i, desc_block, block, gdp). unat (s_groups_count sb) - i)") auto

declare check_descriptors_loop.simps [simp del]

definition ext2_check_descriptors :: "ext2_super_block \<Rightarrow> error + (ext2_super_block \<times> int)" where
  "ext2_check_descriptors sb = check_descriptors_loop sb 0 0 (s_first_data_block sb) None"

text \<open>
  Everything of the state apart from the two bitmap caches, the console and the list
  of released buffers; and a sequence of bitmap loads, stopping where one does not
  return.
\<close>

definition outside_cache :: "ext2_super_block \<Rightarrow> ext2_super_block" where
  "outside_cache sb =
     sb\<lparr>s_loaded_inode_bitmaps := 0, s_loaded_block_bitmaps := 0,
        s_inode_bitmap_number := [], s_inode_bitmap := [],
        s_block_bitmap_number := [], s_block_bitmap := [],
        printk_log := [], brelse_log := []\<rparr>"

datatype load = Load_block "32 word" | Load_inode "32 word"

fun load_all :: "ext2_super_block \<Rightarrow> load list \<Rightarrow> error + ext2_super_block" where
  "load_all sb [] = Inr sb"
| "load_all sb (Load_block g # ls) =
     (case load_block_bitmap sb g of Inl e \<Rightarrow> Inl e | Inr (sb, nr) \<Rightarrow> load_all sb ls)"
| "load_all sb (Load_inode g # ls) =
     (case load_inode_bitmap sb g of Inl e \<Rightarrow> Inl e | Inr (sb, nr) \<Rightarrow> load_all sb ls)"

text \<open>
  The cache operations in terms of lists: entry \<open>i\<close> moved to the front, the entries
  before it one place down; and a new entry put in front of all but the last.  A cache
  is well formed when its arrays have \<open>EXT2_MAX_GROUP_LOADED\<close> slots and its counts do
  not exceed that.
\<close>

definition move_to_front :: "nat \<Rightarrow> 'a list \<Rightarrow> 'a list" where
  "move_to_front i xs = xs ! i # take i xs @ drop (Suc i) xs"

definition push_front :: "'a \<Rightarrow> 'a list \<Rightarrow> 'a list" where
  "push_front x xs = x # butlast xs"

definition cache_wf :: "ext2_super_block \<Rightarrow> bool" where
  "cache_wf sb \<longleftrightarrow>
     length (s_block_bitmap_number sb) = EXT2_MAX_GROUP_LOADED \<and>
     length (s_block_bitmap sb) = EXT2_MAX_GROUP_LOADED \<and>
     length (s_inode_bitmap_number sb) = EXT2_MAX_GROUP_LOADED \<and>
     length (s_inode_bitmap sb) = EXT2_MAX_GROUP_LOADED \<and>
     s_loaded_block_bitmaps sb \<le> EXT2_MAX_GROUP_LOADED \<and>
     s_loaded_inode_bitmaps sb \<le> EXT2_MAX_GROUP_LOADED"

text \<open>
  A file system of nine groups (one more than the cache holds) with both caches full,
  holding the bitmaps of groups 0 to 7 in that order; every block of its disk reads as
  bytes \<open>0b11110000\<close>.
\<close>

definition example_buffer :: "32 word \<Rightarrow> buffer_head" where
  "example_buffer b = \<lparr>b_blocknr = b, b_data = (\<lambda>_. 0xF0)\<rparr>"

definition example_sb :: ext2_super_block where
  "example_sb =
     \<lparr>s_lock = False, s_blocksize = 1024, s_first_data_block = 1,
      s_free_blocks_count = 0, s_free_inodes_count = 0,
      s_blocks_per_group = 8192, s_inodes_per_group = 2048, s_desc_per_block = 32,
      s_itb_per_group = 2, s_groups_count = 9,
      s_group_desc = (\<lambda>_. Some (\<lambda>k.
         \<lparr>bg_block_bitmap = 8192 * of_nat k + 3, bg_inode_bitmap = 8192 * of_nat k + 4,
          bg_inode_table = 8192 * of_nat k + 5, bg_free_blocks_count = 0,
          bg_free_inodes_count = 0, bg_used_dirs_count = 0\<rparr>)),
      s_loaded_inode_bitmaps = 8, s_loaded_block_bitmaps = 8,
      s_inode_bitmap_number = [0, 1, 2, 3, 4, 5, 6, 7],
      s_inode_bitmap = map (\<lambda>k. Some (example_buffer (8192 * k + 4))) [0, 1, 2, 3, 4, 5, 6, 7],
      s_block_bitmap_number = [0, 1, 2, 3, 4, 5, 6, 7],
      s_block_bitmap = map (\<lambda>k. Some (example_buffer (8192 * k + 3))) [0, 1, 2, 3, 4, 5, 6, 7],
      s_disk = (\<lambda>b. Some (example_buffer b)), printk_log = [], brelse_log = []\<rparr>"

text \<open>
  A file system of a single group with both caches empty, on the same disk.
\<close>

definition small_sb :: ext2_super_block where
  "small_sb = example_sb\<lparr>s_groups_count := 1, s_inodes_per_group := 16,
      s_loaded_inode_bitmaps := 0, s_loaded_block_bitmaps := 0,
      s_inode_bitmap_number := [0, 0, 0, 0, 0, 0, 0, 0],
      s_inode_bitmap := [None, None, None, None, None, None, None, None],
      s_block_bitmap_number := [0, 0, 0, 0, 0, 0, 0, 0],
      s_block_bitmap := [None, None, None, None, None, None, None, None]\<rparr>"

section \<open>The inode table (\<open>fs/inode.c\<close>)\<close>

text \<open>
  The declarations of \<open>struct d_inode\<close>, \<open>struct m_inode\<close> and \<open>struct super_block\<close>
  (\<open>linux/fs.h\<close>) are outside these sources.  The on-disk part \<open>d_inode\<close> is what
  \<open>read_inode\<close> and \<open>write_inode\<close> copy as a whole; the in-core inode extends it with
  the fields \<open>inode.c\<close> uses.  \<open>i_dev\<close>, \<open>i_num\<close> and \<open>i_count\<close> are
  \<open>unsigned short\<close> in the kernel this file belongs to, as is \<open>s_dev\<close> of the super
  block: 16 bits, like the fields of the on-disk part.  They are integers here, with
  values from 0 to 65535, and the conversion to 16 bits is written out (\<open>to_ushort\<close>)
  wherever the code stores a value that may not fit: the assignments of the \<open>int\<close>
  parameters \<open>dev\<close> and \<open>nr\<close> and the increment of the count, all of them in \<open>iget\<close>.
  A comparison such as \<open>inode->i_dev != dev\<close> promotes the field to \<open>int\<close> and
  converts nothing; the decrements of \<open>iput\<close> come after its test that the count is
  not 0.  \<open>i_lock\<close>, \<open>i_dirt\<close>, \<open>i_pipe\<close> and \<open>i_mount\<close> are flags.  The wait queue
  \<open>i_wait\<close> has no content in a model with a single process and is left out.
\<close>

definition to_ushort :: "int \<Rightarrow> int" where
  "to_ushort x = x mod 65536"

definition fits_ushort :: "int \<Rightarrow> bool" where
  "fits_ushort x \<longleftrightarrow> 0 \<le> x \<and> x < 65536"

record d_inode =
  i_mode :: "16 word"
  i_uid :: "16 word"
  i_size :: "32 word"
  i_time :: "32 word"
  i_gid :: "8 word"
  i_nlinks :: "8 word"
  i_zone :: "nat \<Rightarrow> 16 word"

record m_inode = d_inode +
  i_dev :: int
  i_num :: int
  i_count :: int
  i_lock :: bool
  i_dirt :: bool
  i_pipe :: bool
  i_mount :: bool

text \<open>What \<open>memset(inode, 0, sizeof(*inode))\<close> leaves.\<close>

definition zero_inode :: m_inode where
  "zero_inode =
     \<lparr>i_mode = 0, i_uid = 0, i_size = 0, i_time = 0, i_gid = 0, i_nlinks = 0, i_zone = (\<lambda>_. 0),
      i_dev = 0, i_num = 0, i_count = 0, i_lock = False, i_dirt = False, i_pipe = False,
      i_mount = False\<rparr>"

text \<open>
  A slot of the mount table \<open>super_block[]\<close>: the device, the inode the file system is
  mounted on (a pointer into the inode table, here the index of the slot, \<open>None\<close> for
  \<open>NULL\<close>) and the two sizes that \<open>read_inode\<close> and \<open>write_inode\<close> add up.
\<close>

record super_block =
  s_dev :: int
  s_imount :: "nat option"
  s_imap_blocks :: "16 word"
  s_zmap_blocks :: "16 word"

text \<open>
  A buffer holding a block of the inode table on disk: \<open>bh->b_data\<close> seen as an array
  of \<open>d_inode\<close>, as the casts in \<open>read_inode\<close> and \<open>write_inode\<close> see it, and the
  buffer's dirty flag.
\<close>

record inode_buffer =
  ib_inodes :: "nat \<Rightarrow> d_inode"
  ib_dirt :: bool

text \<open>
  The state: the global \<open>inode_table\<close> (slots \<open>0\<close> to \<open>NR_INODE - 1\<close>; a pointer to an
  inode is the index of its slot), the static cursor \<open>last_inode\<close> of
  \<open>get_empty_inode\<close>, the global \<open>super_block\<close> table, and the surroundings: the
  buffer cache behind \<open>bread(dev, block)\<close> (\<open>None\<close> where the read fails), the console
  of \<open>printk\<close>, and the arguments of the calls to \<open>free_page\<close> and \<open>sync_dev\<close>.
\<close>

record kernel =
  inode_table :: "nat \<Rightarrow> m_inode"
  last_inode :: nat
  super_block :: "nat \<Rightarrow> super_block"
  buffers :: "int \<times> 32 word \<Rightarrow> inode_buffer option"
  console :: "message list"
  freed_pages :: "32 word list"
  synced_devs :: "16 word list"

text \<open>
  Constants of the absent headers, with the values of the kernel this file belongs to:
  32 in-core inodes, 8 super blocks, root inode number 1, and
  \<open>BLOCK_SIZE / sizeof (struct d_inode) = 1024 / 32\<close> inodes to a block.  \<open>S_ISBLK\<close> is
  \<open>(m & S_IFMT) == S_IFBLK\<close> with \<open>S_IFMT = 0170000\<close> and \<open>S_IFBLK = 0060000\<close> (octal).
\<close>

definition NR_INODE :: nat where "NR_INODE = 32"
definition NR_SUPER :: nat where "NR_SUPER = 8"
definition ROOT_INO :: int where "ROOT_INO = 1"
definition INODES_PER_BLOCK :: "32 word" where "INODES_PER_BLOCK = 32"

definition S_ISBLK :: "16 word \<Rightarrow> bool" where
  "S_ISBLK m \<longleftrightarrow> m AND 0xF000 = 0x6000"

text \<open>An assignment to fields of the inode in slot \<open>i\<close>.\<close>

definition set_inode :: "nat \<Rightarrow> (m_inode \<Rightarrow> m_inode) \<Rightarrow> kernel \<Rightarrow> kernel" where
  "set_inode i f s = s\<lparr>inode_table := (inode_table s)(i := f (inode_table s i))\<rparr>"

text \<open>
  \<open>wait_on_inode\<close>, \<open>lock_inode\<close>, \<open>unlock_inode\<close>.  A caller that finds the inode
  locked sleeps until another process unlocks it; with no other process running, it
  does not return.  \<open>wake_up\<close> has nobody to wake.
\<close>

definition wait_on_inode :: "kernel \<Rightarrow> nat \<Rightarrow> error + kernel" where
  "wait_on_inode s i = (if i_lock (inode_table s i) then Inl Sleeps else Inr s)"

definition lock_inode :: "kernel \<Rightarrow> nat \<Rightarrow> error + kernel" where
  "lock_inode s i =
     (if i_lock (inode_table s i) then Inl Sleeps
      else Inr (set_inode i (\<lambda>ino. ino\<lparr>i_lock := True\<rparr>) s))"

definition unlock_inode :: "kernel \<Rightarrow> nat \<Rightarrow> kernel" where
  "unlock_inode s i = set_inode i (\<lambda>ino. ino\<lparr>i_lock := False\<rparr>) s"

text \<open>
  Modelled from the spec: \<open>get_super\<close> (\<open>fs/super.c\<close>) is missing from the sources; it
  is the mount table's \<open>superblock_for(device)\<close>, here the first slot of \<open>super_block\<close>
  whose device is \<open>dev\<close>, or \<open>NULL\<close> when there is none.
\<close>

fun find_super :: "(nat \<Rightarrow> super_block) \<Rightarrow> int \<Rightarrow> nat \<Rightarrow> nat \<Rightarrow> nat option" where
  "find_super sbs dev 0 k = None"
| "find_super sbs dev (Suc n) k =
     (if s_dev (sbs k) = dev then Some k else find_super sbs dev n (k + 1))"

definition get_super :: "kernel \<Rightarrow> int \<Rightarrow> nat option" where
  "get_super s dev = find_super (super_block s) dev NR_SUPER 0"

text \<open>
  The block of the inode table that holds inode \<open>num\<close>, and the inode's place in it:
  \<open>2 + s_imap_blocks + s_zmap_blocks + (i_num - 1) / INODES_PER_BLOCK\<close> and
  \<open>(i_num - 1) % INODES_PER_BLOCK\<close>, in 32-bit unsigned arithmetic (\<open>INODES_PER_BLOCK\<close>
  is a quotient of \<open>sizeof\<close>s).
\<close>

definition inode_block :: "super_block \<Rightarrow> int \<Rightarrow> 32 word" where
  "inode_block sb num =
     2 + ucast (s_imap_blocks sb) + ucast (s_zmap_blocks sb) +
     (word_of_int (num - 1)) div INODES_PER_BLOCK"

definition inode_slot :: "int \<Rightarrow> nat" where
  "inode_slot num = unat ((word_of_int (num - 1) :: 32 word) mod INODES_PER_BLOCK)"

definition write_inode :: "kernel \<Rightarrow> nat \<Rightarrow> error + kernel" where
  "write_inode s0 i =
     (case lock_inode s0 i of
        Inl e \<Rightarrow> Inl e
      | Inr s \<Rightarrow>
          let inode = inode_table s i in
          if \<not> i_dirt inode \<or> i_dev inode = 0 then Inr (unlock_inode s i)
          else
            (case get_super s (i_dev inode) of
               None \<Rightarrow> Inl (Panic ''trying to write inode without device'')
             | Some k \<Rightarrow>
                 let block = inode_block (super_block s k) (i_num inode) in
                 (case buffers s (i_dev inode, block) of
                    None \<Rightarrow> Inl (Panic ''unable to read i-node block'')
                  | Some bh \<Rightarrow>
                      let bh = bh\<lparr>ib_inodes := (ib_inodes bh)(inode_slot (i_num inode) := d_inode.truncate inode),
                                  ib_dirt := True\<rparr>;
                          s = s\<lparr>buffers := (buffers s)((i_dev inode, block) := Some bh)\<rparr>;
                          s = set_inode i (\<lambda>ino. ino\<lparr>i_dirt := False\<rparr>) s
                      in Inr (unlock_inode s i))))"


definition read_inode :: "kernel \<Rightarrow> nat \<Rightarrow> error + kernel" where
  "read_inode s0 i =
     (case lock_inode s0 i of
        Inl e \<Rightarrow> Inl e
      | Inr s \<Rightarrow>
          let inode = inode_table s i in
          (case get_super s (i_dev inode) of
             None \<Rightarrow> Inl (Panic ''tring to read inode without dev'')
           | Some k \<Rightarrow>
               let block = inode_block (super_block s k) (i_num inode) in
               (case buffers s (i_dev inode, block) of
                  None \<Rightarrow> Inl (Panic ''unable to read i_node block'')
                | Some bh \<Rightarrow>
                    let d = ib_inodes bh (inode_slot (i_num inode));
                        s = set_inode i (\<lambda>ino. ino\<lparr>i_mode := i_mode d, i_uid := i_uid d,
                              i_size := i_size d, i_time := i_time d, i_gid := i_gid d,
                              i_nlinks := i_nlinks d, i_zone := i_zone d\<rparr>) s
                    in Inr (unlock_inode s i))))"

text \<open>
  Modelled from the spec: \<open>truncate\<close> (\<open>fs/truncate.c\<close>) and \<open>free_inode\<close>
  (\<open>fs/bitmap.c\<close>) are missing from the sources.  By the spec, on the last release of
  an inode without links its data blocks are released and the slot is marked
  reclaimable: \<open>truncate\<close> clears the block pointers, \<open>free_inode\<close> puts the slot in the
  state \<open>FREE\<close> of the spec (count 0, unlocked, clean).
\<close>

definition truncate :: "kernel \<Rightarrow> nat \<Rightarrow> kernel" where
  "truncate s i = set_inode i (\<lambda>ino. ino\<lparr>i_zone := (\<lambda>_. 0)\<rparr>) s"

definition free_inode :: "kernel \<Rightarrow> nat \<Rightarrow> kernel" where
  "free_inode s i = set_inode i (\<lambda>ino. ino\<lparr>i_count := 0, i_lock := False, i_dirt := False\<rparr>) s"

text \<open>
  \<open>iput\<close> from the label \<open>repeat\<close> on.  The \<open>goto repeat\<close> after a write-back makes it
  a loop; \<open>None\<close> is the loop that never ends.
\<close>

partial_function (option) iput_repeat :: "kernel \<Rightarrow> nat \<Rightarrow> (error + kernel) option" where
  "iput_repeat s i =
     (if i_count (inode_table s i) > 1
      then Some (Inr (set_inode i (\<lambda>ino. ino\<lparr>i_count := i_count ino - 1\<rparr>) s))
      else if i_nlinks (inode_table s i) = 0
      then Some (Inr (free_inode (truncate s i) i))
      else if i_dirt (inode_table s i)
      then (case write_inode s i of
              Inl e \<Rightarrow> Some (Inl e)
            | Inr s \<Rightarrow>
                (case wait_on_inode s i of
                   Inl e \<Rightarrow> Some (Inl e)
                 | Inr s \<Rightarrow> iput_repeat s i))
      else Some (Inr (set_inode i (\<lambda>ino. ino\<lparr>i_count := i_count ino - 1\<rparr>) s)))"

text \<open>\<open>free_page\<close> and \<open>sync_dev\<close> belong to other subsystems; the calls are recorded.\<close>

definition free_page :: "32 word \<Rightarrow> kernel \<Rightarrow> kernel" where
  "free_page addr s = s\<lparr>freed_pages := freed_pages s @ [addr]\<rparr>"

definition sync_dev :: "16 word \<Rightarrow> kernel \<Rightarrow> kernel" where
  "sync_dev dev s = s\<lparr>synced_devs := synced_devs s @ [dev]\<rparr>"

text \<open>
  \<open>iput\<close>.  The argument is a pointer to an inode (\<open>None\<close> for \<open>NULL\<close>); a pointer
  that does not point into the table is a fault.
\<close>

definition iput :: "kernel \<Rightarrow> nat option \<Rightarrow> (error + kernel) option" where
  "iput s0 inode =
     (case inode of
        None \<Rightarrow> Some (Inr s0)
      | Some i \<Rightarrow>
          if \<not> i < NR_INODE then Some (Inl Fault)
          else
            (case wait_on_inode s0 i of
               Inl e \<Rightarrow> Some (Inl e)
             | Inr s \<Rightarrow>
                 if i_count (inode_table s i) = 0
                 then Some (Inl (Panic ''iput: trying to free free inode''))
                 else if i_pipe (inode_table s i) then
                   (let s = set_inode i (\<lambda>ino. ino\<lparr>i_count := i_count ino - 1\<rparr>) s in
                    if i_count (inode_table s i) \<noteq> 0 then Some (Inr s)
                    else
                      Some (Inr (set_inode i (\<lambda>ino. ino\<lparr>i_count := 0, i_dirt := False, i_pipe := False\<rparr>)
                                   (free_page (i_size (inode_table s i)) s))))
                 else if i_dev (inode_table s i) = 0
                 then Some (Inr (set_inode i (\<lambda>ino. ino\<lparr>i_count := i_count ino - 1\<rparr>) s))
                 else if S_ISBLK (i_mode (inode_table s i)) then
                   (case wait_on_inode (sync_dev (i_zone (inode_table s i) 0) s) i of
                      Inl e \<Rightarrow> Some (Inl e)
                    | Inr s \<Rightarrow> iput_repeat s i)
                 else iput_repeat s i))"

text \<open>
  \<open>get_empty_inode\<close>.  First its \<open>for\<close> loop, \<open>NR_INODE\<close> steps of the cursor at most:
  the arguments are the steps left, the cursor and the candidate \<open>inode\<close> found so far.
  Then the loop that writes the candidate back while it is dirty, and the enclosing
  \<open>do ... while (inode->i_count)\<close>.
\<close>

primrec scan_free :: "(nat \<Rightarrow> m_inode) \<Rightarrow> nat \<Rightarrow> nat \<Rightarrow> nat option \<Rightarrow> nat \<times> nat option" where
  "scan_free tab 0 cur inode = (cur, inode)"
| "scan_free tab (Suc n) cur inode =
     (let cur = (if cur + 1 \<ge> NR_INODE then 0 else cur + 1) in
      if i_count (tab cur) = 0
      then if \<not> i_dirt (tab cur) \<and> \<not> i_lock (tab cur)
           then (cur, Some cur)
           else scan_free tab n cur (Some cur)
      else scan_free tab n cur inode)"

partial_function (option) write_until_clean :: "kernel \<Rightarrow> nat \<Rightarrow> (error + kernel) option" where
  "write_until_clean s i =
     (if i_dirt (inode_table s i)
      then (case write_inode s i of
              Inl e \<Rightarrow> Some (Inl e)
            | Inr s \<Rightarrow>
                (case wait_on_inode s i of
                   Inl e \<Rightarrow> Some (Inl e)
                 | Inr s \<Rightarrow> write_until_clean s i))
      else Some (Inr s))"

partial_function (option) get_empty_inode :: "kernel \<Rightarrow> (error + kernel \<times> nat option) option" where
  "get_empty_inode s0 =
     (case scan_free (inode_table s0) NR_INODE (last_inode s0) None of
        (cur, None) \<Rightarrow> Some (Inl (Panic ''No free inodes in mem''))
      | (cur, Some i) \<Rightarrow>
          (case wait_on_inode (s0\<lparr>last_inode := cur\<rparr>) i of
             Inl e \<Rightarrow> Some (Inl e)
           | Inr s \<Rightarrow>
               (case write_until_clean s i of
                  None \<Rightarrow> None
                | Some (Inl e) \<Rightarrow> Some (Inl e)
                | Some (Inr s) \<Rightarrow>
                    if i_count (inode_table s i) \<noteq> 0 then get_empty_inode s
                    else Some (Inr (set_inode i (\<lambda>_. zero_inode\<lparr>i_count := 1\<rparr>) s, Some i)))))"

text \<open>
  \<open>iget\<close>: the search of the mount table for the super block mounted on \<open>inode\<close> (the
  result is \<open>NR_SUPER\<close> when there is none), the \<open>while\<close> loop over the inode table
  (\<open>empty'\<close> is the spare slot \<open>empty\<close>, \<open>inode\<close> the scanning pointer), and \<open>iget\<close>
  itself.
\<close>

fun find_mount :: "(nat \<Rightarrow> super_block) \<Rightarrow> nat \<Rightarrow> nat \<Rightarrow> nat \<Rightarrow> nat" where
  "find_mount sbs inode 0 i = i"
| "find_mount sbs inode (Suc n) i =
     (if s_imount (sbs i) = Some inode then i else find_mount sbs inode n (i + 1))"

definition k_printk :: "string \<Rightarrow> int list \<Rightarrow> kernel \<Rightarrow> kernel" where
  "k_printk fmt args s = s\<lparr>console := console s @ [(fmt, args)]\<rparr>"

partial_function (option) iget_scan ::
  "kernel \<Rightarrow> nat option \<Rightarrow> int \<Rightarrow> int \<Rightarrow> nat \<Rightarrow> (error + kernel \<times> nat option) option" where
  "iget_scan s empty' dev nr inode =
     (if inode < NR_INODE then
        if i_dev (inode_table s inode) \<noteq> dev \<or> i_num (inode_table s inode) \<noteq> nr
        then iget_scan s empty' dev nr (inode + 1)
        else
          (case wait_on_inode s inode of
             Inl e \<Rightarrow> Some (Inl e)
           | Inr s \<Rightarrow>
               if i_dev (inode_table s inode) \<noteq> dev \<or> i_num (inode_table s inode) \<noteq> nr
               then iget_scan s empty' dev nr 0
               else
                 let s = set_inode inode (\<lambda>ino. ino\<lparr>i_count := to_ushort (i_count ino + 1)\<rparr>) s in
                 if i_mount (inode_table s inode) then
                   let i = find_mount (super_block s) inode NR_SUPER 0 in
                   if i \<ge> NR_SUPER then
                     (case iput (k_printk ''Mounted inode hasn't got sb'' [] s) empty' of
                        None \<Rightarrow> None
                      | Some (Inl e) \<Rightarrow> Some (Inl e)
                      | Some (Inr s) \<Rightarrow> Some (Inr (s, Some inode)))
                   else
                     (case iput s (Some inode) of
                        None \<Rightarrow> None
                      | Some (Inl e) \<Rightarrow> Some (Inl e)
                      | Some (Inr s) \<Rightarrow> iget_scan s empty' (s_dev (super_block s i)) ROOT_INO 0)
                 else
                   (case iput s empty' of
                      None \<Rightarrow> None
                    | Some (Inl e) \<Rightarrow> Some (Inl e)
                    | Some (Inr s) \<Rightarrow> Some (Inr (s, Some inode))))
      else
        (case empty' of
           None \<Rightarrow> Some (Inr (s, None))
         | Some e \<Rightarrow>
             (case read_inode (set_inode e (\<lambda>ino. ino\<lparr>i_dev := to_ushort dev,
                                                      i_num := to_ushort nr\<rparr>) s) e of
                Inl err \<Rightarrow> Some (Inl err)
              | Inr s \<Rightarrow> Some (Inr (s, Some e)))))"

definition iget :: "kernel \<Rightarrow> int \<Rightarrow> int \<Rightarrow> (error + kernel \<times> nat option) option" where
  "iget s dev nr =
     (if dev = 0 then Some (Inl (Panic ''iget with dev==0''))
      else
        (case get_empty_inode s of
           None \<Rightarrow> None
         | Some (Inl e) \<Rightarrow> Some (Inl e)
         | Some (Inr (s, empty')) \<Rightarrow> iget_scan s empty' dev nr 0))"

text \<open>\<open>invalidate_inodes\<close>: the first \<open>n\<close> rounds of its loop, then all \<open>NR_INODE\<close>.\<close>

primrec invalidate_loop :: "int \<Rightarrow> nat \<Rightarrow> kernel \<Rightarrow> error + kernel" where
  "invalidate_loop dev 0 s = Inr s"
| "invalidate_loop dev (Suc n) s =
     (case invalidate_loop dev n s of
        Inl e \<Rightarrow> Inl e
      | Inr s \<Rightarrow>
          (case wait_on_inode s n of
             Inl e \<Rightarrow> Inl e
           | Inr s \<Rightarrow>
               if i_dev (inode_table s n) = dev then
                 let s = (if i_count (inode_table s n) \<noteq> 0
                          then k_printk ''inode in use on removed disk'' [] s else s)
                 in Inr (set_inode n (\<lambda>ino. ino\<lparr>i_dev := 0, i_dirt := False\<rparr>) s)
               else Inr s))"

definition invalidate_inodes :: "kernel \<Rightarrow> int \<Rightarrow> error + kernel" where
  "invalidate_inodes s dev = invalidate_loop dev NR_INODE s"

text \<open>
  The state after \<open>write_inode\<close> has written the inode of slot \<open>i\<close> into the buffer
  \<open>bh\<close> of its block, \<open>k\<close> being the slot of its super block: the buffer holds the
  inode and is dirty, the inode is clean and unlocked.
\<close>

definition written_back :: "kernel \<Rightarrow> nat \<Rightarrow> nat \<Rightarrow> inode_buffer \<Rightarrow> kernel" where
  "written_back s i k bh =
     (let inode = inode_table s i;
          block = inode_block (super_block s k) (i_num inode)
      in s\<lparr>inode_table := (inode_table s)(i := inode\<lparr>i_dirt := False, i_lock := False\<rparr>),
            buffers := (buffers s)((i_dev inode, block) :=
              Some (bh\<lparr>ib_inodes := (ib_inodes bh)(inode_slot (i_num inode) := d_inode.truncate inode),
                       ib_dirt := True\<rparr>))\<rparr>)"

text \<open>
  A kernel with one inode in use: slot 0 holds inode 1 of device 3, referenced once,
  linked once and dirty; device 3 is mounted and all its blocks can be read.
\<close>

definition example_kernel :: kernel where
  "example_kernel =
     \<lparr>inode_table = (\<lambda>_. zero_inode)
        (0 := zero_inode\<lparr>i_nlinks := 1, i_dev := 3, i_num := 1, i_count := 1, i_dirt := True\<rparr>),
      last_inode = 0,
      super_block = (\<lambda>_. \<lparr>s_dev = 3, s_imount = None, s_imap_blocks = 1, s_zmap_blocks = 1\<rparr>),
      buffers = (\<lambda>_. Some \<lparr>ib_inodes = (\<lambda>_. d_inode.truncate zero_inode), ib_dirt = False\<rparr>),
      console = [], freed_pages = [], synced_devs = []\<rparr>"

text \<open>
  The vocabulary of the invariant.  Two states have the same identities when every
  slot has the same device, number and count in both and the mount table is the same
  (flags, link counts, buffers and the rest may differ).
\<close>

definition same_ids :: "kernel \<Rightarrow> kernel \<Rightarrow> bool" where
  "same_ids s s' \<longleftrightarrow>
     super_block s' = super_block s \<and>
     (\<forall>j. i_dev (inode_table s' j) = i_dev (inode_table s j) \<and>
          i_num (inode_table s' j) = i_num (inode_table s j) \<and>
          i_count (inode_table s' j) = i_count (inode_table s j))"




text \<open>
  What an operation on slot \<open>i\<close> may do to the table: the mount table, the other slots
  and the identity of slot \<open>i\<close> stay.
\<close>

definition touched :: "nat \<Rightarrow> kernel \<Rightarrow> kernel \<Rightarrow> bool" where
  "touched i s s' \<longleftrightarrow>
     super_block s' = super_block s \<and>
     (\<forall>j. j \<noteq> i \<longrightarrow> inode_table s' j = inode_table s j) \<and>
     i_dev (inode_table s' i) = i_dev (inode_table s i) \<and>
     i_num (inode_table s' i) = i_num (inode_table s i)"

text \<open>
  The kernel at boot (\<open>inode_table\<close> is initialised to zeros, the cursor to its first
  slot) with device 3 mounted, and the same kernel after \<open>iget(3, 1)\<close>.
\<close>

definition boot_kernel :: kernel where
  "boot_kernel = example_kernel\<lparr>inode_table := (\<lambda>_. zero_inode)\<rparr>"

definition after_iget :: kernel where
  "after_iget =
     boot_kernel\<lparr>inode_table := (\<lambda>_. zero_inode)(1 := zero_inode\<lparr>i_dev := 3, i_num := 1, i_count := 1\<rparr>),
                 last_inode := 1\<rparr>"

text \<open>
  The states reached from a boot state, whatever its mount table and disk, by calls
  of \<open>iget\<close> and \<open>iput\<close> that return, with any arguments, and by anything else that
  leaves the identities and counts of the slots alone (other code marking inodes
  dirty, changing link counts, mounting, reading and writing buffers).
\<close>

inductive reachable :: "kernel \<Rightarrow> bool" where
  init: "reachable \<lparr>inode_table = (\<lambda>_. zero_inode), last_inode = 0, super_block = sbs,
                    buffers = bufs, console = [], freed_pages = [], synced_devs = []\<rparr>"
| iget: "reachable s \<Longrightarrow> iget s dev nr = Some (Inr (s', p)) \<Longrightarrow> reachable s'"
| iput: "reachable s \<Longrightarrow> iput s p = Some (Inr s') \<Longrightarrow> reachable s'"
| other: "reachable s \<Longrightarrow> same_ids s s' \<Longrightarrow> reachable s'"

text \<open>What every such state satisfies, whatever the arguments were: no count is negative.\<close>

definition counts_inv :: "kernel \<Rightarrow> bool" where
  "counts_inv s \<longleftrightarrow> (\<forall>i<NR_INODE. 0 \<le> i_count (inode_table s i))"

text \<open>
  The states reached when every device and inode number handed to \<open>iget\<close> fits the
  16-bit field it is stored in.  The devices of the mount table are 16-bit fields
  themselves.
\<close>

definition mounts_fit :: "(nat \<Rightarrow> super_block) \<Rightarrow> bool" where
  "mounts_fit sbs \<longleftrightarrow> (\<forall>k<NR_SUPER. fits_ushort (s_dev (sbs k)))"

inductive reachable_ushort :: "kernel \<Rightarrow> bool" where
  init: "mounts_fit sbs \<Longrightarrow>
         reachable_ushort \<lparr>inode_table = (\<lambda>_. zero_inode), last_inode = 0, super_block = sbs,
                    buffers = bufs, console = [], freed_pages = [], synced_devs = []\<rparr>"
| iget: "reachable_ushort s \<Longrightarrow> fits_ushort dev \<Longrightarrow> fits_ushort nr \<Longrightarrow>
         iget s dev nr = Some (Inr (s', p)) \<Longrightarrow> reachable_ushort s'"
| iput: "reachable_ushort s \<Longrightarrow> iput s p = Some (Inr s') \<Longrightarrow> reachable_ushort s'"
| other: "reachable_ushort s \<Longrightarrow> same_ids s s' \<Longrightarrow> reachable_ushort s'"



section \<open>Properties of \<open>ext2_counts_free\<close>\<close>

lemma mask4: "(0xf :: 'a::len word) = mask 4" by (simp add: mask_eq_exp_minus_1)

lemma low_nibble_of_char: "char_to_int c AND 0xf = ucast (take_bit 4 c)"
  unfolding char_to_int_def mask4
  apply (rule bit_word_eqI)
  apply (auto simp: bit_simps min_def dest: bit_imp_le_length)
  done

lemma high_nibble_of_char: "signed_drop_bit 4 (char_to_int c) AND 0xf = ucast (drop_bit 4 c)"
  unfolding char_to_int_def mask4
proof (rule bit_word_eqI)
  fix n assume n: "n < LENGTH(32)"
  show "bit (signed_drop_bit 4 (scast c :: 32 word) AND mask 4) n = bit (ucast (drop_bit 4 c) :: 32 word) n"
  proof (cases "n < 4")
    case True
    then have "min 7 (4 + n) = 4 + n" by simp
    with True n show ?thesis by (simp add: bit_simps)
  next
    case False
    then show ?thesis by (auto simp add: bit_simps dest: bit_imp_le_length)
  qed
qed

lemma unat_ucast_char: "unat (ucast (w :: 8 word) :: 32 word) = unat w"
proof -
  have "unat w < 2 ^ 8" using unsigned_less [of w] by simp
  then have "unat w < 2 ^ 32" by simp
  then show ?thesis
    by (simp add: unsigned_ucast_eq take_bit_nat_eq_self)
qed

lemma low_index: "unat (char_to_int c AND 0xf) = unat c mod 16"
  by (simp add: low_nibble_of_char unat_ucast_char unsigned_take_bit_eq take_bit_eq_mod unat_mod)

lemma high_index: "unat (signed_drop_bit 4 (char_to_int c) AND 0xf) = unat c div 16"
  by (simp add: high_nibble_of_char unat_ucast_char unat_drop_bit_eq drop_bit_eq_div unat_div)

lemma nibblemap_zeros: "x < 16 \<Longrightarrow> nibblemap ! x = int (zeros4 x)"
proof -
  assume "x < 16"
  then have "x \<in> set [0..<16]" by simp
  then show ?thesis
    unfolding nibblemap_def zeros4_def
    by (auto simp add: upt_rec bit_iff_odd)
qed

lemma zero_bits_split: "zero_bits c = zeros4 (unat c mod 16) + zeros4 (unat c div 16)"
proof -
  have a: "[0..<8] = [0..<4] @ map (\<lambda>k. k + 4) [0..<4]"
    by (simp add: upt_rec)
  have lo: "\<And>k. k < 4 \<Longrightarrow> bit (unat c mod 16) k = bit c k"
  proof -
    fix k :: nat assume "k < 4"
    then show "bit (unat c mod 16) k = bit c k"
      using bit_take_bit_iff [of 4 "unat c" k]
      by (simp add: take_bit_eq_mod bit_unsigned_iff)
  qed
  have hi: "\<And>k. bit (unat c div 16) k = bit c (k + 4)"
    using bit_drop_bit_eq [of 4 "unat c"]
    by (simp add: drop_bit_eq_div bit_unsigned_iff add.commute)
  have l: "filter (\<lambda>k. \<not> bit (unat c mod 16) k) [0..<4] = filter (\<lambda>k. \<not> bit c k) [0..<4]"
    by (rule filter_cong) (auto simp: lo)
  show ?thesis
    unfolding zero_bits_def zeros4_def a
    by (simp add: l hi filter_map o_def)
qed

lemma free_in_char_zero_bits: "free_in_char c = int (zero_bits c)"
proof -
  have "unat c < 2 ^ 8" using unsigned_less [of c] by simp
  then have "unat c mod 16 < 16" "unat c div 16 < 16" by auto
  then show ?thesis
    by (simp add: free_in_char_def low_index high_index nibblemap_zeros zero_bits_split)
qed

lemma counts_free_loop_unat:
  "unat (counts_free_loop dat n i s) =
     (unat s + sum_list (map (\<lambda>k. zero_bits (dat k)) [i..<n])) mod 2 ^ 32"
proof (induction dat n i s rule: counts_free_loop.induct)
  case (1 dat numchars i acc)
  show ?case
  proof (cases "i < numchars")
    case True
    have "unat (acc + word_of_int (free_in_char (dat i))) = (unat acc + zero_bits (dat i)) mod 2 ^ 32"
      by (simp add: free_in_char_zero_bits unat_word_ariths unat_of_nat mod_add_right_eq)
    with True 1 show ?thesis
      by (subst counts_free_loop.simps) (simp add: upt_rec [of i numchars] mod_add_left_eq add.assoc)
  next
    case False
    then show ?thesis
      by (subst counts_free_loop.simps) (simp add: unsigned_less [of acc, simplified] )
  qed
qed


lemma zero_bits_le: "zero_bits c \<le> 8"
proof -
  have "length (filter (\<lambda>k. \<not> bit c k) [0..<8]) \<le> length [0..<8]"
    by (rule length_filter_le)
  then show ?thesis by (simp add: zero_bits_def)
qed

lemma zero_bits_in_le: "zero_bits_in dat n \<le> 8 * n"
proof (induction n)
  case 0
  show ?case by (simp add: zero_bits_in_def)
next
  case (Suc n)
  then show ?case
    using zero_bits_le [of "dat n"] by (simp add: zero_bits_in_def)
qed

lemma zero_bits_F0: "zero_bits 0xF0 = 4"
  by (simp add: zero_bits_def upt_rec bit_numeral_rec)

lemma zero_bits_in_F0:
  "(\<forall>i<n. dat i = 0xF0) \<Longrightarrow> zero_bits_in dat n = 4 * n"
  by (induction n) (simp_all add: zero_bits_in_def zero_bits_F0)

text \<open>
  C9.  \<open>ext2_counts_free\<close> adds, for each of the first \<open>numchars\<close> bytes, the table
  entries of its two nibbles.  As long as eight times the width fits the
  \<open>unsigned long\<close> sum, the result is the number of zero bits in those bytes; on a
  buffer whose bytes are all \<open>0b11110000\<close> it is four times the width.
\<close>

theorem ext2_counts_free_zero_bits:
  assumes "8 * unat numchars < 2 ^ 32"
  shows "unat (ext2_counts_free (Some bh) numchars) = zero_bits_in (b_data bh) (unat numchars)
       \<and> ((\<forall>i < unat numchars. b_data bh i = 0xF0)
            \<longrightarrow> unat (ext2_counts_free (Some bh) numchars) = 4 * unat numchars)"
proof -
  have le: "zero_bits_in (b_data bh) (unat numchars) < 2 ^ 32"
    using zero_bits_in_le [of "b_data bh" "unat numchars"] assms by simp
  have eq: "unat (ext2_counts_free (Some bh) numchars) = zero_bits_in (b_data bh) (unat numchars)"
    using le by (simp add: ext2_counts_free_def counts_free_loop_unat zero_bits_in_def)
  show ?thesis
    using eq zero_bits_in_F0 [of "unat numchars" "b_data bh"] by simp
qed

theorem ext2_counts_free_zero_bits_witness:
  "unat (ext2_counts_free (Some \<lparr>b_blocknr = 3, b_data = (\<lambda>_. 0xF0)\<rparr>) 2) = 4 * unat (2 :: 32 word)
   \<and> zero_bits_in (\<lambda>_. 0xF0) (unat (2 :: 32 word)) = 8"
proof -
  have h: "8 * unat (2 :: 32 word) < (2 :: nat) ^ 32" by simp
  show ?thesis
    using ext2_counts_free_zero_bits [OF h, of "\<lparr>b_blocknr = 3, b_data = (\<lambda>_. 0xF0)\<rparr>"]
    by simp
qed

section \<open>Properties of the bitmap caches\<close>

lemma hd_update_Suc: "hd (xs[Suc j := v]) = hd xs"
  by (cases xs) simp_all

lemma take_drop_update_shift:
  assumes "Suc j < length xs"
  shows "take j xs @ drop (Suc j) (xs[Suc j := xs ! j]) = take (Suc j) xs @ drop (Suc (Suc j)) xs"
proof -
  have "drop (Suc j) (xs[Suc j := xs ! j]) = xs ! j # drop (Suc (Suc j)) xs"
    using assms by (simp add: upd_conv_take_nth_drop)
  moreover have "take (Suc j) xs = take j xs @ [xs ! j]"
    using assms by (simp add: take_Suc_conv_app_nth)
  ultimately show ?thesis by simp
qed

lemma shift_entries_eq:
  "j < length ns \<Longrightarrow> j < length bs \<Longrightarrow>
   shift_entries j (ns, bs) =
     (hd ns # take j ns @ drop (Suc j) ns, hd bs # take j bs @ drop (Suc j) bs)"
proof (induction j arbitrary: ns bs)
  case 0
  then show ?case by (cases ns; cases bs) simp_all
next
  case (Suc j)
  from Suc.prems show ?case
    by (simp add: Suc.IH hd_update_Suc take_drop_update_shift)
qed

lemma shift_entries_length:
  "length (fst (shift_entries j c)) = length (fst c) \<and> length (snd (shift_entries j c)) = length (snd c)"
  by (induction j arbitrary: c) simp_all

lemma lru_search_hit:
  "i \<le> k \<Longrightarrow> k < loaded \<Longrightarrow> k < EXT2_MAX_GROUP_LOADED \<Longrightarrow> numbers ! k = g \<Longrightarrow>
   (\<forall>m. i \<le> m \<and> m < k \<longrightarrow> numbers ! m \<noteq> g) \<Longrightarrow>
   lru_search numbers loaded g i = Inr k"
proof (induction numbers loaded g i rule: lru_search.induct)
  case (1 numbers loaded block_group i)
  show ?case
  proof (cases "i = k")
    case True
    with 1 show ?thesis by (subst lru_search.simps) simp
  next
    case False
    with 1 have "i < k" "numbers ! i \<noteq> block_group" by auto
    with 1 show ?thesis by (subst lru_search.simps) auto
  qed
qed

lemma lru_search_miss:
  "i \<le> loaded \<Longrightarrow> loaded \<le> EXT2_MAX_GROUP_LOADED \<Longrightarrow>
   (\<forall>m. i \<le> m \<and> m < loaded \<longrightarrow> numbers ! m \<noteq> g) \<Longrightarrow>
   lru_search numbers loaded g i = Inr loaded"
proof (induction numbers loaded g i rule: lru_search.induct)
  case (1 numbers loaded block_group i)
  show ?case
  proof (cases "i = loaded")
    case True
    then show ?thesis by (subst lru_search.simps) simp
  next
    case False
    with 1 have "i < loaded" "numbers ! i \<noteq> block_group" by auto
    with 1 show ?thesis by (subst lru_search.simps) auto
  qed
qed

lemma get_group_desc_cache [simp]:
  "get_group_desc (sb\<lparr>s_block_bitmap_number := a\<rparr>) g = get_group_desc sb g"
  "get_group_desc (sb\<lparr>s_block_bitmap := b\<rparr>) g = get_group_desc sb g"
  "get_group_desc (sb\<lparr>s_inode_bitmap_number := c\<rparr>) g = get_group_desc sb g"
  "get_group_desc (sb\<lparr>s_inode_bitmap := d\<rparr>) g = get_group_desc sb g"
  "get_group_desc (sb\<lparr>s_loaded_block_bitmaps := n\<rparr>) g = get_group_desc sb g"
  "get_group_desc (sb\<lparr>s_loaded_inode_bitmaps := n\<rparr>) g = get_group_desc sb g"
  "get_group_desc (sb\<lparr>brelse_log := bl\<rparr>) g = get_group_desc sb g"
  "get_group_desc (sb\<lparr>printk_log := pl\<rparr>) g = get_group_desc sb g"
  by (simp_all add: get_group_desc_def)

lemma hit_block:
  assumes wf: "cache_wf sb" and lru: "of_nat EXT2_MAX_GROUP_LOADED < s_groups_count sb"
    and g: "g < s_groups_count sb"
    and i: "i < s_loaded_block_bitmaps sb" "s_block_bitmap_number sb ! i = g"
       "\<forall>m < i. s_block_bitmap_number sb ! m \<noteq> g"
  shows "load_block_bitmap sb g =
     Inr (sb\<lparr>s_block_bitmap_number := move_to_front i (s_block_bitmap_number sb),
             s_block_bitmap := move_to_front i (s_block_bitmap sb)\<rparr>, 0)"
proof (cases "i = 0")
  case True
  from wf have "s_block_bitmap_number sb \<noteq> []" "s_block_bitmap sb \<noteq> []"
    by (auto simp: cache_wf_def EXT2_MAX_GROUP_LOADED_def)
  then have "move_to_front 0 (s_block_bitmap_number sb) = s_block_bitmap_number sb"
     "move_to_front 0 (s_block_bitmap sb) = s_block_bitmap sb"
    by (simp_all add: move_to_front_def hd_conv_nth [symmetric] hd_Cons_tl drop_Suc)
  with True i show ?thesis by (simp add: load_block_bitmap_def)
next
  case False
  from wf i have il: "i < EXT2_MAX_GROUP_LOADED" "i < length (s_block_bitmap_number sb)"
     "i < length (s_block_bitmap sb)"
    by (auto simp: cache_wf_def)
  have s: "lru_search (s_block_bitmap_number sb) (s_loaded_block_bitmaps sb) g 0 = Inr i"
    using i il by (intro lru_search_hit) auto
  have n0: "s_block_bitmap_number sb ! 0 \<noteq> g" using i False by auto
  have ng: "\<not> s_groups_count sb \<le> of_nat EXT2_MAX_GROUP_LOADED" "\<not> s_groups_count sb \<le> g"
    using lru g by auto
  show ?thesis
    using n0 ng i il
    by (simp add: load_block_bitmap_def load__block_bitmap_def s shift_entries_eq move_to_front_def)
qed


lemma hit_inode:
  assumes wf: "cache_wf sb" and lru: "of_nat EXT2_MAX_GROUP_LOADED < s_groups_count sb"
    and g: "g < s_groups_count sb"
    and i: "i < s_loaded_inode_bitmaps sb" "s_inode_bitmap_number sb ! i = g"
       "\<forall>m < i. s_inode_bitmap_number sb ! m \<noteq> g"
  shows "load_inode_bitmap sb g =
     Inr (sb\<lparr>s_inode_bitmap_number := move_to_front i (s_inode_bitmap_number sb),
             s_inode_bitmap := move_to_front i (s_inode_bitmap sb)\<rparr>, 0)"
proof (cases "i = 0")
  case True
  from wf have "s_inode_bitmap_number sb \<noteq> []" "s_inode_bitmap sb \<noteq> []"
    by (auto simp: cache_wf_def EXT2_MAX_GROUP_LOADED_def)
  then have "move_to_front 0 (s_inode_bitmap_number sb) = s_inode_bitmap_number sb"
     "move_to_front 0 (s_inode_bitmap sb) = s_inode_bitmap sb"
    by (simp_all add: move_to_front_def hd_conv_nth [symmetric] hd_Cons_tl drop_Suc)
  moreover have "\<not> s_groups_count sb \<le> g" using g by auto
  ultimately show ?thesis using True i by (simp add: load_inode_bitmap_def)
next
  case False
  from wf i have il: "i < EXT2_MAX_GROUP_LOADED" "i < length (s_inode_bitmap_number sb)"
     "i < length (s_inode_bitmap sb)"
    by (auto simp: cache_wf_def)
  have s: "lru_search (s_inode_bitmap_number sb) (s_loaded_inode_bitmaps sb) g 0 = Inr i"
    using i il by (intro lru_search_hit) auto
  have n0: "s_inode_bitmap_number sb ! 0 \<noteq> g" using i False by auto
  have ng: "\<not> s_groups_count sb \<le> of_nat EXT2_MAX_GROUP_LOADED" "\<not> s_groups_count sb \<le> g"
    using lru g by auto
  show ?thesis
    using n0 ng i il
    by (simp add: load_inode_bitmap_def s shift_entries_eq move_to_front_def)
qed

lemma take_full_butlast:
  "length xs = EXT2_MAX_GROUP_LOADED \<Longrightarrow> take (EXT2_MAX_GROUP_LOADED - Suc 0) xs = butlast xs"
  by (simp add: butlast_conv_take)

lemma miss_full_block:
  assumes wf: "cache_wf sb" and lru: "of_nat EXT2_MAX_GROUP_LOADED < s_groups_count sb"
    and g: "g < s_groups_count sb"
    and full: "s_loaded_block_bitmaps sb = EXT2_MAX_GROUP_LOADED"
    and miss: "\<forall>m < EXT2_MAX_GROUP_LOADED. s_block_bitmap_number sb ! m \<noteq> g"
    and gd: "get_group_desc sb g = Inr gdp"
  shows "load_block_bitmap sb g =
     Inr (sb\<lparr>s_block_bitmap_number := push_front g (s_block_bitmap_number sb),
             s_block_bitmap := push_front (bread (s_disk sb) (bg_block_bitmap gdp)) (s_block_bitmap sb),
             brelse_log := brelse_log sb @ [s_block_bitmap sb ! (EXT2_MAX_GROUP_LOADED - 1)],
             printk_log := (if bread (s_disk sb) (bg_block_bitmap gdp) = None
                            then printk_log sb @ [(''Cannot read block bitmap'', [])]
                            else printk_log sb)\<rparr>, 0)"
proof -
  from wf have l: "length (s_block_bitmap_number sb) = EXT2_MAX_GROUP_LOADED"
     "length (s_block_bitmap sb) = EXT2_MAX_GROUP_LOADED"
    by (auto simp: cache_wf_def)
  have pos: "0 < EXT2_MAX_GROUP_LOADED" by (simp add: EXT2_MAX_GROUP_LOADED_def)
  have s: "lru_search (s_block_bitmap_number sb) EXT2_MAX_GROUP_LOADED g 0
             = Inr EXT2_MAX_GROUP_LOADED"
    using lru_search_miss [of 0 EXT2_MAX_GROUP_LOADED "s_block_bitmap_number sb" g] miss
    by simp
  have n0: "s_block_bitmap_number sb ! 0 \<noteq> g" using miss pos by auto
  have ng: "\<not> s_groups_count sb \<le> of_nat EXT2_MAX_GROUP_LOADED" "\<not> s_groups_count sb \<le> g"
    using lru g by auto
  have sh: "shift_entries (EXT2_MAX_GROUP_LOADED - Suc 0) (s_block_bitmap_number sb, s_block_bitmap sb)
     = (hd (s_block_bitmap_number sb) # take (EXT2_MAX_GROUP_LOADED - Suc 0) (s_block_bitmap_number sb)
          @ drop EXT2_MAX_GROUP_LOADED (s_block_bitmap_number sb),
        hd (s_block_bitmap sb) # take (EXT2_MAX_GROUP_LOADED - Suc 0) (s_block_bitmap sb)
          @ drop EXT2_MAX_GROUP_LOADED (s_block_bitmap sb))"
    using shift_entries_eq [of "EXT2_MAX_GROUP_LOADED - Suc 0" "s_block_bitmap_number sb" "s_block_bitmap sb"]
      l pos by simp
  show ?thesis
    using n0 ng full
    by (simp add: load_block_bitmap_def load__block_bitmap_def s sh read_block_bitmap_def gd
          take_full_butlast push_front_def l brelse_def printk_def Let_def)
qed


lemma miss_full_inode:
  assumes wf: "cache_wf sb" and lru: "of_nat EXT2_MAX_GROUP_LOADED < s_groups_count sb"
    and g: "g < s_groups_count sb"
    and full: "s_loaded_inode_bitmaps sb = EXT2_MAX_GROUP_LOADED"
    and miss: "\<forall>m < EXT2_MAX_GROUP_LOADED. s_inode_bitmap_number sb ! m \<noteq> g"
    and gd: "get_group_desc sb g = Inr gdp"
    and rd: "bread (s_disk sb) (bg_inode_bitmap gdp) = Some bh"
  shows "load_inode_bitmap sb g =
     Inr (sb\<lparr>s_inode_bitmap_number := push_front g (s_inode_bitmap_number sb),
             s_inode_bitmap := push_front (Some bh) (s_inode_bitmap sb),
             brelse_log := brelse_log sb @ [s_inode_bitmap sb ! (EXT2_MAX_GROUP_LOADED - 1)]\<rparr>, 0)"
proof -
  from wf have l: "length (s_inode_bitmap_number sb) = EXT2_MAX_GROUP_LOADED"
     "length (s_inode_bitmap sb) = EXT2_MAX_GROUP_LOADED"
    by (auto simp: cache_wf_def)
  have pos: "0 < EXT2_MAX_GROUP_LOADED" by (simp add: EXT2_MAX_GROUP_LOADED_def)
  have s: "lru_search (s_inode_bitmap_number sb) EXT2_MAX_GROUP_LOADED g 0
             = Inr EXT2_MAX_GROUP_LOADED"
    using lru_search_miss [of 0 EXT2_MAX_GROUP_LOADED "s_inode_bitmap_number sb" g] miss
    by simp
  have n0: "s_inode_bitmap_number sb ! 0 \<noteq> g" using miss pos by auto
  have ng: "\<not> s_groups_count sb \<le> of_nat EXT2_MAX_GROUP_LOADED" "\<not> s_groups_count sb \<le> g"
    using lru g by auto
  have sh: "shift_entries (EXT2_MAX_GROUP_LOADED - Suc 0) (s_inode_bitmap_number sb, s_inode_bitmap sb)
     = (hd (s_inode_bitmap_number sb) # take (EXT2_MAX_GROUP_LOADED - Suc 0) (s_inode_bitmap_number sb)
          @ drop EXT2_MAX_GROUP_LOADED (s_inode_bitmap_number sb),
        hd (s_inode_bitmap sb) # take (EXT2_MAX_GROUP_LOADED - Suc 0) (s_inode_bitmap sb)
          @ drop EXT2_MAX_GROUP_LOADED (s_inode_bitmap sb))"
    using shift_entries_eq [of "EXT2_MAX_GROUP_LOADED - Suc 0" "s_inode_bitmap_number sb" "s_inode_bitmap sb"]
      l pos by simp
  show ?thesis
    using n0 ng full rd
    by (simp add: load_inode_bitmap_def s sh read_inode_bitmap_def gd
          take_full_butlast push_front_def l brelse_def Let_def)
qed

lemma read_block_bitmap_wf:
  "read_block_bitmap sb g n = Inr sb' \<Longrightarrow> cache_wf sb' = cache_wf sb"
  by (auto simp: read_block_bitmap_def cache_wf_def printk_def Let_def split: sum.splits if_splits)

lemma read_inode_bitmap_wf:
  "read_inode_bitmap sb g n = Inr sb' \<Longrightarrow> cache_wf sb' = cache_wf sb"
  by (auto simp: read_inode_bitmap_def cache_wf_def split: sum.splits option.splits)

lemma load__block_bitmap_wf:
  assumes "load__block_bitmap sb g = Inr (sb', nr)" "cache_wf sb"
  shows "cache_wf sb'"
proof -
  define ns where "ns i = fst (shift_entries i (s_block_bitmap_number sb, s_block_bitmap sb))" for i
  define bs where "bs i = snd (shift_entries i (s_block_bitmap_number sb, s_block_bitmap sb))" for i
  have sh1: "\<And>i. shift_entries i (s_block_bitmap_number sb, s_block_bitmap sb) = (ns i, bs i)"
    by (simp add: ns_def bs_def)
  have len: "\<And>i. length (ns i) = length (s_block_bitmap_number sb)"
     "\<And>i. length (bs i) = length (s_block_bitmap sb)"
    using shift_entries_length [of _ "(s_block_bitmap_number sb, s_block_bitmap sb)"] sh1 by simp_all
  from assms show ?thesis
    by (auto simp: load__block_bitmap_def sh1 brelse_def Let_def cache_wf_def len
          split: if_splits sum.splits dest!: read_block_bitmap_wf)
qed

lemma load_block_bitmap_wf:
  "load_block_bitmap sb g = Inr (sb', nr) \<Longrightarrow> cache_wf sb \<Longrightarrow> cache_wf sb'"
  by (auto simp: load_block_bitmap_def split: if_splits dest: load__block_bitmap_wf)

lemma load_inode_bitmap_wf:
  assumes "load_inode_bitmap sb g = Inr (sb', nr)" "cache_wf sb"
  shows "cache_wf sb'"
proof -
  define ns where "ns i = fst (shift_entries i (s_inode_bitmap_number sb, s_inode_bitmap sb))" for i
  define bs where "bs i = snd (shift_entries i (s_inode_bitmap_number sb, s_inode_bitmap sb))" for i
  have sh1: "\<And>i. shift_entries i (s_inode_bitmap_number sb, s_inode_bitmap sb) = (ns i, bs i)"
    by (simp add: ns_def bs_def)
  have len: "\<And>i. length (ns i) = length (s_inode_bitmap_number sb)"
     "\<And>i. length (bs i) = length (s_inode_bitmap sb)"
    using shift_entries_length [of _ "(s_inode_bitmap_number sb, s_inode_bitmap sb)"] sh1 by simp_all
  from assms show ?thesis
    by (auto simp: load_inode_bitmap_def sh1 brelse_def printk_def Let_def cache_wf_def len
          split: if_splits sum.splits dest!: read_inode_bitmap_wf)
qed

lemma load_all_wf:
  "load_all sb ls = Inr sb' \<Longrightarrow> cache_wf sb \<Longrightarrow> cache_wf sb'"
proof (induction sb ls rule: load_all.induct)
  case (1 sb)
  then show ?case by simp
next
  case (2 sb g ls)
  then show ?case
    by (auto split: sum.splits dest: load_block_bitmap_wf)
next
  case (3 sb g ls)
  then show ?case
    by (auto split: sum.splits dest: load_inode_bitmap_wf)
qed


lemma ex_wf: "cache_wf example_sb"
  by (simp add: cache_wf_def example_sb_def EXT2_MAX_GROUP_LOADED_def)

lemma ex_lru: "of_nat EXT2_MAX_GROUP_LOADED < s_groups_count example_sb"
  by (simp add: example_sb_def EXT2_MAX_GROUP_LOADED_def)

lemma all_less_8: "(\<forall>m<8::nat. P m) \<longleftrightarrow> P 0 \<and> P 1 \<and> P 2 \<and> P 3 \<and> P 4 \<and> P 5 \<and> P 6 \<and> P 7"
proof -
  have "{m::nat. m < 8} = {0, 1, 2, 3, 4, 5, 6, 7}" by auto
  then show ?thesis by (metis (mono_tags, lifting) insert_iff mem_Collect_eq empty_iff)
qed

text \<open>
  C8.  On a file system with more groups than cache slots and a well-formed cache:
  whatever sequence of \<open>load_block_bitmap\<close> and \<open>load_inode_bitmap\<close> calls runs, each
  cache still counts at most \<open>EXT2_MAX_GROUP_LOADED\<close> loaded bitmaps (and stays well
  formed); a call for a group found at index \<open>i\<close> of its cache moves that entry, number
  and buffer, to index 0 and the entries before it one place down, changing nothing
  else; a call for a group absent from a full cache hands the buffer of the last slot
  to \<open>brelse\<close>, shifts the others one place down and puts the group's number and the
  buffer \<open>bread\<close> returns for its bitmap block at index 0 (for the block bitmap a failed
  read is reported and the null buffer installed; the inode bitmap is stated for a
  read that succeeds).
\<close>

theorem bitmap_cache_bound_and_order:
  assumes wf: "cache_wf sb" and lru: "of_nat EXT2_MAX_GROUP_LOADED < s_groups_count sb"
  shows
   "(\<forall>ls sb'. load_all sb ls = Inr sb' \<longrightarrow>
        s_loaded_block_bitmaps sb' \<le> EXT2_MAX_GROUP_LOADED \<and>
        s_loaded_inode_bitmaps sb' \<le> EXT2_MAX_GROUP_LOADED \<and> cache_wf sb')
    \<and> (\<forall>g i. g < s_groups_count sb \<and> i < s_loaded_block_bitmaps sb \<and>
           s_block_bitmap_number sb ! i = g \<and> (\<forall>m<i. s_block_bitmap_number sb ! m \<noteq> g) \<longrightarrow>
         load_block_bitmap sb g =
           Inr (sb\<lparr>s_block_bitmap_number := move_to_front i (s_block_bitmap_number sb),
                   s_block_bitmap := move_to_front i (s_block_bitmap sb)\<rparr>, 0))
    \<and> (\<forall>g i. g < s_groups_count sb \<and> i < s_loaded_inode_bitmaps sb \<and>
           s_inode_bitmap_number sb ! i = g \<and> (\<forall>m<i. s_inode_bitmap_number sb ! m \<noteq> g) \<longrightarrow>
         load_inode_bitmap sb g =
           Inr (sb\<lparr>s_inode_bitmap_number := move_to_front i (s_inode_bitmap_number sb),
                   s_inode_bitmap := move_to_front i (s_inode_bitmap sb)\<rparr>, 0))
    \<and> (\<forall>g gdp. g < s_groups_count sb \<and> s_loaded_block_bitmaps sb = EXT2_MAX_GROUP_LOADED \<and>
           (\<forall>m<EXT2_MAX_GROUP_LOADED. s_block_bitmap_number sb ! m \<noteq> g) \<and>
           get_group_desc sb g = Inr gdp \<longrightarrow>
         load_block_bitmap sb g =
           Inr (sb\<lparr>s_block_bitmap_number := push_front g (s_block_bitmap_number sb),
                   s_block_bitmap :=
                     push_front (bread (s_disk sb) (bg_block_bitmap gdp)) (s_block_bitmap sb),
                   brelse_log := brelse_log sb @ [s_block_bitmap sb ! (EXT2_MAX_GROUP_LOADED - 1)],
                   printk_log := (if bread (s_disk sb) (bg_block_bitmap gdp) = None
                                  then printk_log sb @ [(''Cannot read block bitmap'', [])]
                                  else printk_log sb)\<rparr>, 0))
    \<and> (\<forall>g gdp bh. g < s_groups_count sb \<and> s_loaded_inode_bitmaps sb = EXT2_MAX_GROUP_LOADED \<and>
           (\<forall>m<EXT2_MAX_GROUP_LOADED. s_inode_bitmap_number sb ! m \<noteq> g) \<and>
           get_group_desc sb g = Inr gdp \<and> bread (s_disk sb) (bg_inode_bitmap gdp) = Some bh \<longrightarrow>
         load_inode_bitmap sb g =
           Inr (sb\<lparr>s_inode_bitmap_number := push_front g (s_inode_bitmap_number sb),
                   s_inode_bitmap := push_front (Some bh) (s_inode_bitmap sb),
                   brelse_log := brelse_log sb @ [s_inode_bitmap sb ! (EXT2_MAX_GROUP_LOADED - 1)]\<rparr>,
                0))"
proof (intro conjI allI impI)
  fix ls sb' assume "load_all sb ls = Inr sb'"
  then have w: "cache_wf sb'" using wf by (rule load_all_wf)
  then show "s_loaded_block_bitmaps sb' \<le> EXT2_MAX_GROUP_LOADED"
    and "s_loaded_inode_bitmaps sb' \<le> EXT2_MAX_GROUP_LOADED" and "cache_wf sb'"
    by (simp_all add: cache_wf_def)
next
  fix g i
  assume "g < s_groups_count sb \<and> i < s_loaded_block_bitmaps sb \<and>
           s_block_bitmap_number sb ! i = g \<and> (\<forall>m<i. s_block_bitmap_number sb ! m \<noteq> g)"
  then show "load_block_bitmap sb g =
           Inr (sb\<lparr>s_block_bitmap_number := move_to_front i (s_block_bitmap_number sb),
                   s_block_bitmap := move_to_front i (s_block_bitmap sb)\<rparr>, 0)"
    using hit_block [OF wf lru, of g i] by blast
next
  fix g i
  assume "g < s_groups_count sb \<and> i < s_loaded_inode_bitmaps sb \<and>
           s_inode_bitmap_number sb ! i = g \<and> (\<forall>m<i. s_inode_bitmap_number sb ! m \<noteq> g)"
  then show "load_inode_bitmap sb g =
           Inr (sb\<lparr>s_inode_bitmap_number := move_to_front i (s_inode_bitmap_number sb),
                   s_inode_bitmap := move_to_front i (s_inode_bitmap sb)\<rparr>, 0)"
    using hit_inode [OF wf lru, of g i] by blast
next
  fix g gdp
  assume "g < s_groups_count sb \<and> s_loaded_block_bitmaps sb = EXT2_MAX_GROUP_LOADED \<and>
           (\<forall>m<EXT2_MAX_GROUP_LOADED. s_block_bitmap_number sb ! m \<noteq> g) \<and>
           get_group_desc sb g = Inr gdp"
  then show "load_block_bitmap sb g =
           Inr (sb\<lparr>s_block_bitmap_number := push_front g (s_block_bitmap_number sb),
                   s_block_bitmap :=
                     push_front (bread (s_disk sb) (bg_block_bitmap gdp)) (s_block_bitmap sb),
                   brelse_log := brelse_log sb @ [s_block_bitmap sb ! (EXT2_MAX_GROUP_LOADED - 1)],
                   printk_log := (if bread (s_disk sb) (bg_block_bitmap gdp) = None
                                  then printk_log sb @ [(''Cannot read block bitmap'', [])]
                                  else printk_log sb)\<rparr>, 0)"
    using miss_full_block [OF wf lru, of g gdp] by blast
next
  fix g gdp bh
  assume "g < s_groups_count sb \<and> s_loaded_inode_bitmaps sb = EXT2_MAX_GROUP_LOADED \<and>
           (\<forall>m<EXT2_MAX_GROUP_LOADED. s_inode_bitmap_number sb ! m \<noteq> g) \<and>
           get_group_desc sb g = Inr gdp \<and> bread (s_disk sb) (bg_inode_bitmap gdp) = Some bh"
  then show "load_inode_bitmap sb g =
           Inr (sb\<lparr>s_inode_bitmap_number := push_front g (s_inode_bitmap_number sb),
                   s_inode_bitmap := push_front (Some bh) (s_inode_bitmap sb),
                   brelse_log := brelse_log sb @ [s_inode_bitmap sb ! (EXT2_MAX_GROUP_LOADED - 1)]\<rparr>,
                0)"
    using miss_full_inode [OF wf lru, of g gdp bh] by blast
qed

theorem bitmap_cache_bound_and_order_witness:
  "load_block_bitmap example_sb 3 =
     Inr (example_sb\<lparr>s_block_bitmap_number := [3, 0, 1, 2, 4, 5, 6, 7],
           s_block_bitmap := map (\<lambda>k. Some (example_buffer k))
              [24579, 3, 8195, 16387, 32771, 40963, 49155, 57347]\<rparr>, 0)
   \<and> load_block_bitmap example_sb 8 =
     Inr (example_sb\<lparr>s_block_bitmap_number := [8, 0, 1, 2, 3, 4, 5, 6],
           s_block_bitmap := map (\<lambda>k. Some (example_buffer k))
              [65539, 3, 8195, 16387, 24579, 32771, 40963, 49155],
           brelse_log := [Some (example_buffer 57347)]\<rparr>, 0)
   \<and> load_inode_bitmap example_sb 8 =
     Inr (example_sb\<lparr>s_inode_bitmap_number := [8, 0, 1, 2, 3, 4, 5, 6],
           s_inode_bitmap := map (\<lambda>k. Some (example_buffer k))
              [65540, 4, 8196, 16388, 24580, 32772, 40964, 49156],
           brelse_log := [Some (example_buffer 57348)]\<rparr>, 0)"
proof -
  note T = bitmap_cache_bound_and_order [OF ex_wf ex_lru]
  have gd: "get_group_desc example_sb 8 = Inr \<lparr>bg_block_bitmap = 65539, bg_inode_bitmap = 65540,
          bg_inode_table = 65541, bg_free_blocks_count = 0,
          bg_free_inodes_count = 0, bg_used_dirs_count = 0\<rparr>"
    by (simp add: get_group_desc_def example_sb_def)
  have 1: "load_block_bitmap example_sb 3 =
     Inr (example_sb\<lparr>s_block_bitmap_number := [3, 0, 1, 2, 4, 5, 6, 7],
           s_block_bitmap := map (\<lambda>k. Some (example_buffer k))
              [24579, 3, 8195, 16387, 32771, 40963, 49155, 57347]\<rparr>, 0)"
    apply (subst T [THEN conjunct2, THEN conjunct1, rule_format, of 3 3])
     apply (simp add: example_sb_def less_Suc_eq numeral_3_eq_3)
    apply (simp add: move_to_front_def example_sb_def numeral_3_eq_3)
    done
  have 2: "load_block_bitmap example_sb 8 =
     Inr (example_sb\<lparr>s_block_bitmap_number := [8, 0, 1, 2, 3, 4, 5, 6],
           s_block_bitmap := map (\<lambda>k. Some (example_buffer k))
              [65539, 3, 8195, 16387, 24579, 32771, 40963, 49155],
           brelse_log := [Some (example_buffer 57347)]\<rparr>, 0)"
    apply (subst T [THEN conjunct2, THEN conjunct2, THEN conjunct2, THEN conjunct1, rule_format, of 8, OF conjI [OF _ conjI [OF _ conjI [OF _ gd]]]])
       apply (simp_all add: example_sb_def EXT2_MAX_GROUP_LOADED_def all_less_8 push_front_def bread_def)
    done
  have 3: "load_inode_bitmap example_sb 8 =
     Inr (example_sb\<lparr>s_inode_bitmap_number := [8, 0, 1, 2, 3, 4, 5, 6],
           s_inode_bitmap := map (\<lambda>k. Some (example_buffer k))
              [65540, 4, 8196, 16388, 24580, 32772, 40964, 49156],
           brelse_log := [Some (example_buffer 57348)]\<rparr>, 0)"
    apply (subst T [THEN conjunct2, THEN conjunct2, THEN conjunct2, THEN conjunct2, rule_format, of 8 _ "example_buffer 65540", OF conjI [OF _ conjI [OF _ conjI [OF _ conjI [OF gd]]]]])
       apply (simp_all add: example_sb_def EXT2_MAX_GROUP_LOADED_def all_less_8 push_front_def bread_def)
    done
  from 1 2 3 show ?thesis by simp
qed

section \<open>What the consistency checks change\<close>

lemma outside_cache_printk [simp]: "outside_cache (printk fmt args sb) = outside_cache sb"
  by (simp add: outside_cache_def printk_def)

lemma outside_cache_brelse [simp]: "outside_cache (brelse bh sb) = outside_cache sb"
  by (simp add: outside_cache_def brelse_def)

lemma outside_cache_updates [simp]:
  "outside_cache (sb\<lparr>s_block_bitmap_number := a\<rparr>) = outside_cache sb"
  "outside_cache (sb\<lparr>s_block_bitmap := b\<rparr>) = outside_cache sb"
  "outside_cache (sb\<lparr>s_inode_bitmap_number := c\<rparr>) = outside_cache sb"
  "outside_cache (sb\<lparr>s_inode_bitmap := d\<rparr>) = outside_cache sb"
  "outside_cache (sb\<lparr>s_loaded_block_bitmaps := n\<rparr>) = outside_cache sb"
  "outside_cache (sb\<lparr>s_loaded_inode_bitmaps := n\<rparr>) = outside_cache sb"
  by (simp_all add: outside_cache_def)

lemma read_block_bitmap_outside:
  "read_block_bitmap sb g n = Inr sb' \<Longrightarrow> outside_cache sb' = outside_cache sb"
  by (auto simp: read_block_bitmap_def Let_def split: sum.splits if_splits)

lemma read_inode_bitmap_outside:
  "read_inode_bitmap sb g n = Inr sb' \<Longrightarrow> outside_cache sb' = outside_cache sb"
  by (auto simp: read_inode_bitmap_def split: sum.splits option.splits)

lemma load__block_bitmap_outside:
  "load__block_bitmap sb g = Inr (sb', nr) \<Longrightarrow> outside_cache sb' = outside_cache sb"
  by (auto simp: load__block_bitmap_def Let_def split_beta
        split: if_splits sum.splits dest!: read_block_bitmap_outside)

lemma load_block_bitmap_outside:
  "load_block_bitmap sb g = Inr (sb', nr) \<Longrightarrow> outside_cache sb' = outside_cache sb"
  by (auto simp: load_block_bitmap_def split: if_splits dest: load__block_bitmap_outside)

lemma load_inode_bitmap_outside:
  "load_inode_bitmap sb g = Inr (sb', nr) \<Longrightarrow> outside_cache sb' = outside_cache sb"
  by (auto simp: load_inode_bitmap_def Let_def split_beta
        split: if_splits sum.splits dest!: read_inode_bitmap_outside)

lemma fold_frame:
  "(\<And>j sb. h (f j sb) = h sb) \<Longrightarrow> h (fold f js sb) = h sb"
  by (induction js arbitrary: sb) simp_all

lemma let_frame:
  "h a = c \<Longrightarrow> (\<And>sb. h sb = c \<Longrightarrow> h (fst (f sb)) = c) \<Longrightarrow> h (fst (Let a f)) = c"
  by simp

lemma let_value: "(\<And>x. P (f x)) \<Longrightarrow> P (Let a f)"
  by simp

lemma report_block_group_frame:
  assumes p: "\<And>fmt args sb. h (printk fmt args sb) = h sb"
  shows "h (fst (report_block_group desc_blocks i gdp bh sb)) = h sb"
  unfolding report_block_group_def
  apply (rule let_frame, simp add: p)
  apply (rule let_frame, simp add: fold_frame p)
  apply (rule let_frame, simp add: p)
  apply (rule let_frame, simp add: p)
  apply (rule let_frame, simp add: fold_frame p)
  apply (rule let_value)
  apply (rule let_frame, simp add: p)
  apply simp
  done

lemma report_block_group_outside:
  "outside_cache (fst (report_block_group desc_blocks i gdp bh sb)) = outside_cache sb"
  by (rule report_block_group_frame) simp

lemma check_block_group_outside:
  assumes "check_block_group desc_blocks i st = Inr st'"
  shows "outside_cache (fst st') = outside_cache (fst st)"
proof -
  obtain sb dc bc where st: "st = (sb, dc, bc)" by (cases st)
  from assms obtain gdp sb1 nr bh where
    l: "load_block_bitmap sb (of_nat i) = Inr (sb1, nr)"
    and r: "fst st' = fst (report_block_group desc_blocks i gdp bh sb1)"
    by (auto simp: check_block_group_def st Let_def split_beta
          split: sum.splits option.splits if_splits)
  show ?thesis
    using load_block_bitmap_outside [OF l] by (simp add: r st report_block_group_outside)
qed

lemma check_inode_group_outside:
  assumes "check_inode_group i st = Inr st'"
  shows "outside_cache (fst st') = outside_cache (fst st)"
proof -
  obtain sb dc bc where st: "st = (sb, dc, bc)" by (cases st)
  from assms obtain sb1 nr where
    l: "load_inode_bitmap sb (of_nat i) = Inr (sb1, nr)"
    and r: "outside_cache (fst st') = outside_cache sb1"
    by (auto simp: check_inode_group_def st Let_def split: sum.splits if_splits)
  show ?thesis
    using load_inode_bitmap_outside [OF l] by (simp add: r st)
qed

lemma for_each_group_outside:
  "for_each_group body n i st = Inr st' \<Longrightarrow>
   (\<And>i st st'. body i st = Inr st' \<Longrightarrow> outside_cache (fst st') = outside_cache (fst st)) \<Longrightarrow>
   outside_cache (fst st') = outside_cache (fst st)"
proof (induction body n i st rule: for_each_group.induct)
  case (1 body n i st)
  show ?case
  proof (cases "i < n")
    case True
    with "1.prems"(1) obtain st1 where b: "body i st = Inr st1"
      and r: "for_each_group body n (i + 1) st1 = Inr st'"
      by (subst (asm) for_each_group.simps) (auto split: sum.splits)
    from "1.IH" [OF True b r "1.prems"(2)] "1.prems"(2) [OF b] show ?thesis by simp
  next
    case False
    with "1.prems"(1) show ?thesis by (subst (asm) for_each_group.simps) simp
  qed
qed

lemma outside_cache_lock:
  "\<not> s_lock sb \<Longrightarrow> outside_cache sb' = outside_cache (sb\<lparr>s_lock := True\<rparr>) \<Longrightarrow>
   outside_cache (unlock_super sb') = outside_cache sb"
proof -
  assume a: "\<not> s_lock sb" and b: "outside_cache sb' = outside_cache (sb\<lparr>s_lock := True\<rparr>)"
  have "outside_cache (unlock_super sb') = (outside_cache sb')\<lparr>s_lock := False\<rparr>"
    by (simp add: outside_cache_def unlock_super_def)
  also have "\<dots> = (outside_cache (sb\<lparr>s_lock := True\<rparr>))\<lparr>s_lock := False\<rparr>" by (simp add: b)
  also have "\<dots> = outside_cache sb" using a by (simp add: outside_cache_def)
  finally show ?thesis .
qed

lemma ext2_check_block_bitmap_outside:
  assumes "ext2_check_block_bitmap sb = Inr sb'"
  shows "outside_cache sb' = outside_cache sb"
proof -
  from assms have nl: "\<not> s_lock sb"
    by (auto simp: ext2_check_block_bitmap_def lock_super_def split: if_splits)
  from assms nl obtain db st where
    f: "for_each_group (check_block_group db) (unat (s_groups_count sb)) 0 (sb\<lparr>s_lock := True\<rparr>, 0, 0) = Inr st"
    and r: "sb' = unlock_super (if s_free_blocks_count (fst st) \<noteq> snd (snd st)
                      then printk ''Wrong free blocks count in super block'' [] (fst st)
                      else fst st)"
    by (auto simp: ext2_check_block_bitmap_def lock_super_def Let_def split: if_splits sum.splits)
  have "outside_cache (fst st) = outside_cache (sb\<lparr>s_lock := True\<rparr>)"
    using for_each_group_outside [OF f check_block_group_outside] by simp
  then show ?thesis
    unfolding r by (intro outside_cache_lock [OF nl]) simp
qed

lemma ext2_check_inode_bitmap_outside:
  assumes "ext2_check_inode_bitmap sb = Inr sb'"
  shows "outside_cache sb' = outside_cache sb"
proof -
  from assms have nl: "\<not> s_lock sb"
    by (auto simp: ext2_check_inode_bitmap_def lock_super_def split: if_splits)
  from assms nl obtain st where
    f: "for_each_group check_inode_group (unat (s_groups_count sb)) 0 (sb\<lparr>s_lock := True\<rparr>, 0, 0) = Inr st"
    and r: "sb' = unlock_super (if s_free_inodes_count (fst st) \<noteq> snd (snd st)
                      then printk ''Wrong free inodes count in super block'' [] (fst st)
                      else fst st)"
    by (auto simp: ext2_check_inode_bitmap_def lock_super_def Let_def split: if_splits sum.splits)
  have "outside_cache (fst st) = outside_cache (sb\<lparr>s_lock := True\<rparr>)"
    using for_each_group_outside [OF f check_inode_group_outside] by simp
  then show ?thesis
    unfolding r by (intro outside_cache_lock [OF nl]) simp
qed

lemma check_descriptors_loop_console_aux:
  "unat (s_groups_count sb) - i = n \<Longrightarrow>
   check_descriptors_loop sb i desc_block block gdp = Inr (sb', r)
   \<Longrightarrow> sb'\<lparr>printk_log := printk_log sb\<rparr> = sb"
proof (induction n arbitrary: i desc_block block gdp)
  case 0
  then show ?case
    by (subst (asm) check_descriptors_loop.simps) simp
next
  case (Suc n)
  have step: "\<And>d b g. check_descriptors_loop sb (i + 1) d b g = Inr (sb', r)
       \<Longrightarrow> sb'\<lparr>printk_log := printk_log sb\<rparr> = sb"
    using Suc.prems(1) by (intro Suc.IH) auto
  from Suc.prems(2) show ?case
    by (subst (asm) check_descriptors_loop.simps)
       (auto simp: printk_def split: if_splits sum.splits option.splits prod.splits
             dest: step [simplified])
qed

lemma check_descriptors_console:
  "ext2_check_descriptors sb = Inr (sb', r) \<Longrightarrow> sb'\<lparr>printk_log := printk_log sb\<rparr> = sb"
  unfolding ext2_check_descriptors_def by (rule check_descriptors_loop_console_aux [OF refl])


lemma s_block_bitmap_printk [simp]: "s_block_bitmap (printk fmt args sb) = s_block_bitmap sb"
  by (simp add: printk_def)

lemma s_inode_bitmap_printk [simp]: "s_inode_bitmap (printk fmt args sb) = s_inode_bitmap sb"
  by (simp add: printk_def)

lemma s_block_bitmap_report [simp]:
  "s_block_bitmap (fst (report_block_group desc_blocks i gdp bh sb)) = s_block_bitmap sb"
  by (rule report_block_group_frame) simp

lemma ext2_counts_free_example:
  "ext2_counts_free (Some (example_buffer b)) n = 4 * n"
proof -
  have "unat (ext2_counts_free (Some (example_buffer b)) n) = (4 * unat n) mod 2 ^ 32"
    using zero_bits_in_F0 [of "unat n" "\<lambda>_. 0xF0"]
    by (simp add: ext2_counts_free_def counts_free_loop_unat example_buffer_def zero_bits_in_def)
  also have "\<dots> = unat (4 * n)"
    by (simp add: unat_word_ariths)
  finally show ?thesis by (simp add: word_unat_eq_iff)
qed

lemma small_sb_group_desc: "get_group_desc (small_sb\<lparr>s_lock := True\<rparr>) 0 = Inr \<lparr>bg_block_bitmap = 3, bg_inode_bitmap = 4,
          bg_inode_table = 5, bg_free_blocks_count = 0,
          bg_free_inodes_count = 0, bg_used_dirs_count = 0\<rparr>"
    by (simp add: small_sb_def example_sb_def get_group_desc_def)

lemma small_sb_load_block: "load_block_bitmap (small_sb\<lparr>s_lock := True\<rparr>) 0 =
      Inr (small_sb\<lparr>s_lock := True,
            s_block_bitmap := [Some (example_buffer 3), None, None, None, None, None, None, None]\<rparr>, 0)"
    by (simp add: load_block_bitmap_def load__block_bitmap_def read_block_bitmap_def
          get_group_desc_def small_sb_def example_sb_def
          EXT2_MAX_GROUP_LOADED_def bread_def)


lemma small_sb_load_inode: "load_inode_bitmap (small_sb\<lparr>s_lock := True\<rparr>) 0 =
      Inr (small_sb\<lparr>s_lock := True,
            s_inode_bitmap := [Some (example_buffer 4), None, None, None, None, None, None, None]\<rparr>, 0)"
    by (simp add: load_inode_bitmap_def read_inode_bitmap_def
          get_group_desc_def small_sb_def example_sb_def
          EXT2_MAX_GROUP_LOADED_def bread_def)

lemma small_sb_fields: "s_lock small_sb = False" "s_groups_count small_sb = 1" "s_desc_per_block small_sb = 32"
    "s_blocks_per_group small_sb = 8192"
    by (simp_all add: small_sb_def example_sb_def)

lemma small_sb_check_block_group: "map_sum id (s_block_bitmap \<circ> fst) (check_block_group 1 0 (small_sb\<lparr>s_lock := True\<rparr>, 0, 0))
   = Inr [Some (example_buffer 3), None, None, None, None, None, None, None]"
  by (simp add: check_block_group_def small_sb_group_desc small_sb_load_block small_sb_fields split_beta)

lemma small_sb_check_inode_group: "map_sum id (s_inode_bitmap \<circ> fst) (check_inode_group 0 (small_sb\<lparr>s_lock := True\<rparr>, 0, 0))
   = Inr [Some (example_buffer 4), None, None, None, None, None, None, None]"
  by (simp add: check_inode_group_def small_sb_group_desc small_sb_load_inode small_sb_fields split_beta Let_def)


lemma for_each_group_once:
  "for_each_group body (Suc 0) 0 st = body 0 st"
  by (subst for_each_group.simps, simp split: sum.splits)
     (subst for_each_group.simps, simp)


lemma small_sb_check_block:
  "map_sum id s_block_bitmap (ext2_check_block_bitmap small_sb)
     = Inr [Some (example_buffer 3), None, None, None, None, None, None, None]"
proof -
  obtain st1 where c1: "check_block_group 1 0 (small_sb\<lparr>s_lock := True\<rparr>, 0, 0) = Inr st1"
    and b1: "s_block_bitmap (fst st1) = [Some (example_buffer 3), None, None, None, None, None, None, None]"
    using small_sb_check_block_group
    by (cases "check_block_group 1 0 (small_sb\<lparr>s_lock := True\<rparr>, 0, 0)") auto
  show ?thesis
    by (simp add: ext2_check_block_bitmap_def lock_super_def unlock_super_def small_sb_fields
          for_each_group_once c1 b1 split_beta Let_def)
qed

lemma small_sb_check_inode:
  "map_sum id s_inode_bitmap (ext2_check_inode_bitmap small_sb)
     = Inr [Some (example_buffer 4), None, None, None, None, None, None, None]"
proof -
  obtain st2 where c2: "check_inode_group 0 (small_sb\<lparr>s_lock := True\<rparr>, 0, 0) = Inr st2"
    and b2: "s_inode_bitmap (fst st2) = [Some (example_buffer 4), None, None, None, None, None, None, None]"
    using small_sb_check_inode_group
    by (cases "check_inode_group 0 (small_sb\<lparr>s_lock := True\<rparr>, 0, 0)") auto
  show ?thesis
    by (simp add: ext2_check_inode_bitmap_def lock_super_def unlock_super_def small_sb_fields
          for_each_group_once c2 b2 split_beta Let_def)
qed

lemma small_sb_check_descriptors: "ext2_check_descriptors small_sb = Inr (small_sb, 1)"
  by (simp add: ext2_check_descriptors_def check_descriptors_loop.simps small_sb_def example_sb_def)

text \<open>
  C4, as the code has it.  \<open>ext2_check_descriptors\<close> changes nothing but the console.
  \<open>ext2_check_block_bitmap\<close> and \<open>ext2_check_inode_bitmap\<close>, when they return, leave
  everything outside the two bitmap caches as it was (the super block's lock and
  counts, the group descriptors, the disk), apart from the console and the list of
  released buffers; the caches themselves are not covered, because the checks load
  each group's bitmap through them.
\<close>

theorem ext2_checks_frame:
  "(\<forall>sb' r. ext2_check_descriptors sb = Inr (sb', r) \<longrightarrow> sb'\<lparr>printk_log := printk_log sb\<rparr> = sb)
   \<and> (\<forall>sb'. ext2_check_block_bitmap sb = Inr sb' \<longrightarrow> outside_cache sb' = outside_cache sb)
   \<and> (\<forall>sb'. ext2_check_inode_bitmap sb = Inr sb' \<longrightarrow> outside_cache sb' = outside_cache sb)"
  using check_descriptors_console ext2_check_block_bitmap_outside ext2_check_inode_bitmap_outside
  by blast


theorem ext2_checks_frame_witness:
  "map_sum id (\<lambda>(sb', r). sb'\<lparr>printk_log := printk_log small_sb\<rparr>) (ext2_check_descriptors small_sb)
     = Inr small_sb
   \<and> map_sum id outside_cache (ext2_check_block_bitmap small_sb) = Inr (outside_cache small_sb)
   \<and> map_sum id outside_cache (ext2_check_inode_bitmap small_sb) = Inr (outside_cache small_sb)"
proof -
  note T = ext2_checks_frame [of small_sb]
  obtain sb1 where 1: "ext2_check_block_bitmap small_sb = Inr sb1"
    using small_sb_check_block by (cases "ext2_check_block_bitmap small_sb") auto
  obtain sb2 where 2: "ext2_check_inode_bitmap small_sb = Inr sb2"
    using small_sb_check_inode by (cases "ext2_check_inode_bitmap small_sb") auto
  from T 1 have "outside_cache sb1 = outside_cache small_sb" by blast
  moreover from T 2 have "outside_cache sb2 = outside_cache small_sb" by blast
  moreover from T small_sb_check_descriptors
  have "small_sb\<lparr>printk_log := printk_log small_sb\<rparr> = small_sb" by simp
  ultimately show ?thesis by (simp add: 1 2 small_sb_check_descriptors)
qed

text \<open>
  C4, as the claim states it, fails: on a one-group file system with empty caches,
  \<open>ext2_check_block_bitmap\<close> returns with the group's block bitmap in slot 0 of the
  block-bitmap cache, and \<open>ext2_check_inode_bitmap\<close> with the inode bitmap in slot 0 of
  the inode-bitmap cache; both slots were empty before.
\<close>

theorem ext2_checks_change_cache:
  "map_sum id s_block_bitmap (ext2_check_block_bitmap small_sb)
     = Inr [Some (example_buffer 3), None, None, None, None, None, None, None]
   \<and> map_sum id s_inode_bitmap (ext2_check_inode_bitmap small_sb)
     = Inr [Some (example_buffer 4), None, None, None, None, None, None, None]
   \<and> s_block_bitmap small_sb = [None, None, None, None, None, None, None, None]
   \<and> s_inode_bitmap small_sb = [None, None, None, None, None, None, None, None]"
  using small_sb_check_block small_sb_check_inode
  by (simp add: small_sb_def example_sb_def)

section \<open>Properties of the inode table\<close>

lemma set_inode_simps [simp]:
  "inode_table (set_inode i f s) = (inode_table s)(i := f (inode_table s i))"
  "last_inode (set_inode i f s) = last_inode s"
  "super_block (set_inode i f s) = super_block s"
  "buffers (set_inode i f s) = buffers s"
  "console (set_inode i f s) = console s"
  "freed_pages (set_inode i f s) = freed_pages s"
  "synced_devs (set_inode i f s) = synced_devs s"
  by (simp_all add: set_inode_def)

lemma k_printk_simps [simp]:
  "inode_table (k_printk fmt args s) = inode_table s"
  "super_block (k_printk fmt args s) = super_block s"
  "console (k_printk fmt args s) = console s @ [(fmt, args)]"
  by (simp_all add: k_printk_def)

lemma invalidate_loop_result:
  "invalidate_loop dev n s = Inr s' \<Longrightarrow>
     (\<forall>j. inode_table s' j =
        (if j < n \<and> i_dev (inode_table s j) = dev
         then (inode_table s j)\<lparr>i_dev := 0, i_dirt := False\<rparr> else inode_table s j))
     \<and> console s' = console s @
          map (\<lambda>_. (''inode in use on removed disk'', []))
            (filter (\<lambda>j. i_dev (inode_table s j) = dev \<and> i_count (inode_table s j) \<noteq> 0) [0..<n])"
proof (induction n arbitrary: s')
  case 0
  then show ?case by simp
next
  case (Suc n)
  from Suc.prems obtain s1 where 1: "invalidate_loop dev n s = Inr s1"
    and 2: "\<not> i_lock (inode_table s1 n)"
    and 3: "s' = (if i_dev (inode_table s1 n) = dev then
                 set_inode n (\<lambda>ino. ino\<lparr>i_dev := 0, i_dirt := False\<rparr>)
                   (if i_count (inode_table s1 n) \<noteq> 0
                    then k_printk ''inode in use on removed disk'' [] s1 else s1)
               else s1)"
    by (auto simp: wait_on_inode_def Let_def split: sum.splits if_splits)
  note ih = Suc.IH [OF 1]
  from ih have n: "inode_table s1 n = inode_table s n" by simp
  show ?case
    unfolding 3 using ih n by (auto simp: less_Suc_eq)
qed

lemma invalidate_loop_returns:
  "(\<forall>j<n. \<not> i_lock (inode_table s j)) \<Longrightarrow> \<exists>s'. invalidate_loop dev n s = Inr s'"
proof (induction n)
  case 0
  then show ?case by simp
next
  case (Suc n)
  then obtain s1 where 1: "invalidate_loop dev n s = Inr s1" by auto
  from invalidate_loop_result [OF 1] have "inode_table s1 n = inode_table s n" by simp
  with Suc.prems 1 show ?case
    by (simp add: wait_on_inode_def Let_def)
qed

lemma example_kernel_unlocked: "\<not> i_lock (inode_table example_kernel j)"
  by (simp add: example_kernel_def zero_inode_def)

lemma example_kernel_slot0:
  "i_dev (inode_table example_kernel 0) = 3" "i_dirt (inode_table example_kernel 0)"
  "i_count (inode_table example_kernel 0) = 1" "i_num (inode_table example_kernel 0) = 1"
  by (simp_all add: example_kernel_def)

lemma example_kernel_super: "get_super example_kernel 3 = Some 0"
  by (simp add: get_super_def example_kernel_def NR_SUPER_def eval_nat_numeral)

text \<open>
  C2, as the code has it.  When \<open>invalidate_inodes\<close> returns, every slot whose device
  is the invalidated one has its device and dirty fields cleared, referenced or not,
  and is otherwise unchanged; the other slots are unchanged; one message is printed
  for each matching slot that is still referenced.  It returns whenever no inode is
  locked.
\<close>

theorem invalidate_inodes_clears_matching:
  "(\<forall>s'. invalidate_inodes s dev = Inr s' \<longrightarrow>
      (\<forall>j<NR_INODE. inode_table s' j =
         (if i_dev (inode_table s j) = dev
          then (inode_table s j)\<lparr>i_dev := 0, i_dirt := False\<rparr> else inode_table s j))
      \<and> console s' = console s @
           map (\<lambda>_. (''inode in use on removed disk'', []))
             (filter (\<lambda>j. i_dev (inode_table s j) = dev \<and> i_count (inode_table s j) \<noteq> 0)
                [0..<NR_INODE]))
   \<and> ((\<forall>j<NR_INODE. \<not> i_lock (inode_table s j)) \<longrightarrow> (\<exists>s'. invalidate_inodes s dev = Inr s'))"
  unfolding invalidate_inodes_def
  using invalidate_loop_result [of dev NR_INODE s] invalidate_loop_returns [of NR_INODE s dev]
  by auto

theorem invalidate_inodes_clears_matching_witness:
  "map_sum id (\<lambda>s'. (i_dev (inode_table s' 0), i_dev (inode_table s' 1)))
     (invalidate_inodes example_kernel 3) = Inr (0, 0)"
proof -
  note T = invalidate_inodes_clears_matching [of example_kernel 3]
  from T obtain s' where 1: "invalidate_inodes example_kernel 3 = Inr s'"
    using example_kernel_unlocked by blast
  from T 1 have "\<forall>j<NR_INODE. inode_table s' j =
         (if i_dev (inode_table example_kernel j) = 3
          then (inode_table example_kernel j)\<lparr>i_dev := 0, i_dirt := False\<rparr>
          else inode_table example_kernel j)"
    by blast
  then have "i_dev (inode_table s' 0) = 0" "i_dev (inode_table s' 1) = 0"
    by (simp_all add: NR_INODE_def example_kernel_def zero_inode_def)
  with 1 show ?thesis by simp
qed

text \<open>
  C2, as the claim states it, fails: slot 0 of the example is referenced (count 1) and
  dirty on device 3; invalidating device 3 clears its device and dirty fields all the
  same, the count staying 1.
\<close>

theorem invalidate_inodes_clears_referenced:
  "map_sum id (\<lambda>s'. (i_dev (inode_table s' 0), i_dirt (inode_table s' 0), i_count (inode_table s' 0)))
     (invalidate_inodes example_kernel 3) = Inr (0, False, 1)
   \<and> i_dev (inode_table example_kernel 0) = 3
   \<and> i_dirt (inode_table example_kernel 0)
   \<and> i_count (inode_table example_kernel 0) = 1"
proof -
  obtain s' where 1: "invalidate_loop 3 NR_INODE example_kernel = Inr s'"
    using invalidate_loop_returns [of NR_INODE example_kernel 3] example_kernel_unlocked by blast
  from invalidate_loop_result [OF 1]
  have "inode_table s' 0 = (inode_table example_kernel 0)\<lparr>i_dev := 0, i_dirt := False\<rparr>"
    by (simp add: NR_INODE_def example_kernel_slot0)
  with 1 show ?thesis
    by (simp add: invalidate_inodes_def example_kernel_slot0)
qed

text \<open>
  C10.  \<open>iput(NULL)\<close> returns at once, and the state it returns is the state it was
  given: no slot of the inode table, and nothing else, has changed.
\<close>

theorem iput_null: "iput s None = Some (Inr s)"
  by (simp add: iput_def)

lemma iput_free_inode_panics:
  "i < NR_INODE \<Longrightarrow> \<not> i_lock (inode_table s i) \<Longrightarrow> i_count (inode_table s i) = 0 \<Longrightarrow>
   iput s (Some i) = Some (Inl (Panic ''iput: trying to free free inode''))"
  by (simp add: iput_def wait_on_inode_def)


lemma write_inode_dirty:
  assumes "\<not> i_lock (inode_table s i)" "i_dirt (inode_table s i)" "i_dev (inode_table s i) \<noteq> 0"
  shows "write_inode s i =
     (case get_super s (i_dev (inode_table s i)) of
        None \<Rightarrow> Inl (Panic ''trying to write inode without device'')
      | Some k \<Rightarrow>
          (case buffers s (i_dev (inode_table s i),
                  inode_block (super_block s k) (i_num (inode_table s i))) of
             None \<Rightarrow> Inl (Panic ''unable to read i-node block'')
           | Some bh \<Rightarrow> Inr (written_back s i k bh)))"
  using assms
  by (auto simp: write_inode_def lock_inode_def unlock_inode_def get_super_def written_back_def
        set_inode_def Let_def d_inode.truncate_def split: option.splits)

lemma iput_repeat_last_dirty:
  assumes "\<not> i_lock (inode_table s i)" "i_dirt (inode_table s i)" "i_dev (inode_table s i) \<noteq> 0"
    and "i_count (inode_table s i) = 1" "i_nlinks (inode_table s i) \<noteq> 0"
  shows "iput_repeat s i =
     (case get_super s (i_dev (inode_table s i)) of
        None \<Rightarrow> Some (Inl (Panic ''trying to write inode without device''))
      | Some k \<Rightarrow>
          (case buffers s (i_dev (inode_table s i),
                  inode_block (super_block s k) (i_num (inode_table s i))) of
             None \<Rightarrow> Some (Inl (Panic ''unable to read i-node block''))
           | Some bh \<Rightarrow>
               Some (Inr (set_inode i (\<lambda>ino. ino\<lparr>i_count := 0\<rparr>) (written_back s i k bh)))))"
proof -
  have w: "\<And>k bh. iput_repeat (written_back s i k bh) i =
      Some (Inr (set_inode i (\<lambda>ino. ino\<lparr>i_count := 0\<rparr>) (written_back s i k bh)))"
    using assms
    by (subst iput_repeat.simps) (simp add: written_back_def Let_def set_inode_def)
  have l: "\<And>k bh. wait_on_inode (written_back s i k bh) i = Inr (written_back s i k bh)"
    by (simp add: wait_on_inode_def written_back_def Let_def)
  show ?thesis
    using assms
    by (subst iput_repeat.simps)
       (simp add: write_inode_dirty w l split: option.splits)
qed


text \<open>
  C7.  Releasing the last reference (count 1) of an unlocked, dirty inode that is not
  a pipe, has a device and has links: \<open>iput\<close> always comes to an end; it panics
  exactly when the device has no super block or the inode's block cannot be read;
  otherwise it returns the state in which the inode has been written into its buffer
  (after \<open>sync_dev\<close> for a block device), and on return the inode's dirty flag is
  clear and its count is 0.
\<close>

theorem iput_last_dirty:
  assumes "i < NR_INODE" and "\<not> i_lock (inode_table s i)" and "\<not> i_pipe (inode_table s i)"
    and "i_dev (inode_table s i) \<noteq> 0" and "i_count (inode_table s i) = 1"
    and "i_nlinks (inode_table s i) \<noteq> 0" and "i_dirt (inode_table s i)"
  shows "iput s (Some i) =
     (let s1 = (if S_ISBLK (i_mode (inode_table s i))
                then sync_dev (i_zone (inode_table s i) 0) s else s)
      in case get_super s (i_dev (inode_table s i)) of
           None \<Rightarrow> Some (Inl (Panic ''trying to write inode without device''))
         | Some k \<Rightarrow>
             (case buffers s (i_dev (inode_table s i),
                     inode_block (super_block s k) (i_num (inode_table s i))) of
                None \<Rightarrow> Some (Inl (Panic ''unable to read i-node block''))
              | Some bh \<Rightarrow>
                  Some (Inr (set_inode i (\<lambda>ino. ino\<lparr>i_count := 0\<rparr>) (written_back s1 i k bh)))))
   \<and> iput s (Some i) \<noteq> None
   \<and> (\<forall>s'. iput s (Some i) = Some (Inr s') \<longrightarrow>
         \<not> i_dirt (inode_table s' i) \<and> i_count (inode_table s' i) = 0)"
proof -
  define s1 where "s1 = (if S_ISBLK (i_mode (inode_table s i))
                then sync_dev (i_zone (inode_table s i) 0) s else s)"
  have t: "inode_table s1 = inode_table s" "super_block s1 = super_block s" "buffers s1 = buffers s"
    by (simp_all add: s1_def sync_dev_def)
  have g: "get_super s1 = get_super s"
    by (rule ext) (simp add: get_super_def t)
  have r: "iput s (Some i) = iput_repeat s1 i"
    using assms by (simp add: iput_def wait_on_inode_def s1_def sync_dev_def)
  have e: "iput s (Some i) =
     (case get_super s (i_dev (inode_table s i)) of
           None \<Rightarrow> Some (Inl (Panic ''trying to write inode without device''))
         | Some k \<Rightarrow>
             (case buffers s (i_dev (inode_table s i),
                     inode_block (super_block s k) (i_num (inode_table s i))) of
                None \<Rightarrow> Some (Inl (Panic ''unable to read i-node block''))
              | Some bh \<Rightarrow>
                  Some (Inr (set_inode i (\<lambda>ino. ino\<lparr>i_count := 0\<rparr>) (written_back s1 i k bh)))))"
    unfolding r using assms
    by (subst iput_repeat_last_dirty) (simp_all add: t g cong: option.case_cong)
  have 1: "iput s (Some i) \<noteq> None"
    unfolding e by (simp split: option.splits)
  have 2: "\<forall>s'. iput s (Some i) = Some (Inr s') \<longrightarrow>
         \<not> i_dirt (inode_table s' i) \<and> i_count (inode_table s' i) = 0"
    unfolding e by (auto simp: written_back_def Let_def split: option.splits)
  show ?thesis
    unfolding Let_def s1_def [symmetric] by (intro conjI) (rule e, rule 1, rule 2)
qed

theorem iput_last_dirty_witness:
  "map_option (map_sum id (\<lambda>s'. (i_dirt (inode_table s' 0), i_count (inode_table s' 0))))
     (iput example_kernel (Some 0)) = Some (Inr (False, 0))"
proof -
  have h: "0 < NR_INODE" "\<not> i_lock (inode_table example_kernel 0)"
    "\<not> i_pipe (inode_table example_kernel 0)" "i_dev (inode_table example_kernel 0) \<noteq> 0"
    "i_count (inode_table example_kernel 0) = 1" "i_nlinks (inode_table example_kernel 0) \<noteq> 0"
    "i_dirt (inode_table example_kernel 0)"
    by (simp_all add: example_kernel_def zero_inode_def NR_INODE_def)
  have d: "i_dev (inode_table example_kernel 0) = 3"
    by (simp add: example_kernel_def)
  have b: "\<And>x. buffers example_kernel x = Some \<lparr>ib_inodes = (\<lambda>_. d_inode.truncate zero_inode), ib_dirt = False\<rparr>"
    by (simp add: example_kernel_def)
  show ?thesis
    using iput_last_dirty [OF h, THEN conjunct1]
    by (simp add: d example_kernel_super b Let_def written_back_def)
qed


section \<open>The invariant of \<open>iget\<close> and \<open>iput\<close>\<close>

lemma same_ids_refl [simp]: "same_ids s s"
  by (simp add: same_ids_def)

lemma same_ids_trans: "same_ids s s' \<Longrightarrow> same_ids s' s'' \<Longrightarrow> same_ids s s''"
  by (simp add: same_ids_def)



lemma wait_on_inode_Inr: "wait_on_inode s i = Inr s' \<Longrightarrow> s' = s \<and> \<not> i_lock (inode_table s i)"
  by (simp add: wait_on_inode_def split: if_splits)

lemma write_inode_same_ids: "write_inode s i = Inr s' \<Longrightarrow> same_ids s s'"
  by (auto simp: write_inode_def lock_inode_def unlock_inode_def same_ids_def Let_def
        split: if_splits option.splits)

lemma write_until_clean_same_ids:
  assumes a: "write_until_clean s0 i0 = Some (Inr s0')"
  shows "same_ids s0 s0'"
proof -
  have "\<forall>s'. (Inr s0' :: error + kernel) = Inr s' \<longrightarrow> same_ids s0 s'"
    apply (rule write_until_clean.raw_induct
             [where P = "\<lambda>s i y. \<forall>s'. y = Inr s' \<longrightarrow> same_ids s s'", OF _ a])
    subgoal premises p for f s i y
    proof (intro allI impI)
      fix s' assume y: "y = Inr s'"
      show "same_ids s s'"
      proof (cases "i_dirt (inode_table s i)")
        case False
        with p(2) y show ?thesis by simp
      next
        case True
        with p(2) y obtain s1 where w: "write_inode s i = Inr s1"
          and r: "f s1 i = Some (Inr s')"
          by (auto split: sum.splits dest!: wait_on_inode_Inr)
        from p(1) [OF r] have "same_ids s1 s'" by simp
        with write_inode_same_ids [OF w] show ?thesis by (rule same_ids_trans)
      qed
    qed
    done
  then show ?thesis by simp
qed


lemma touched_refl [simp]: "touched i s s"
  by (simp add: touched_def)

lemma touched_trans: "touched i s s' \<Longrightarrow> touched i s' s'' \<Longrightarrow> touched i s s''"
  by (simp add: touched_def)

lemma write_inode_touched:
  "write_inode s i = Inr s' \<Longrightarrow>
   touched i s s' \<and> i_count (inode_table s' i) = i_count (inode_table s i)"
  by (auto simp: write_inode_def lock_inode_def unlock_inode_def touched_def Let_def
        split: if_splits option.splits)

lemma iput_repeat_released:
  assumes a: "iput_repeat s0 i0 = Some (Inr s0')" and c: "0 < i_count (inode_table s0 i0)"
  shows "touched i0 s0 s0' \<and> i_count (inode_table s0' i0) = i_count (inode_table s0 i0) - 1"
proof -
  have "\<forall>s'. (Inr s0' :: error + kernel) = Inr s' \<longrightarrow> 0 < i_count (inode_table s0 i0) \<longrightarrow>
          touched i0 s0 s' \<and> i_count (inode_table s' i0) = i_count (inode_table s0 i0) - 1"
    apply (rule iput_repeat.raw_induct
             [where P = "\<lambda>s i y. \<forall>s'. y = Inr s' \<longrightarrow> 0 < i_count (inode_table s i) \<longrightarrow>
                touched i s s' \<and> i_count (inode_table s' i) = i_count (inode_table s i) - 1", OF _ a])
    subgoal premises p for f s i y
    proof (intro allI impI)
      fix s' assume y: "y = Inr s'" and pos: "0 < i_count (inode_table s i)"
      consider (many) "1 < i_count (inode_table s i)"
        | (unlinked) "\<not> 1 < i_count (inode_table s i)" "i_nlinks (inode_table s i) = 0"
        | (dirty) "\<not> 1 < i_count (inode_table s i)" "i_nlinks (inode_table s i) \<noteq> 0"
             "i_dirt (inode_table s i)"
        | (clean) "\<not> 1 < i_count (inode_table s i)" "i_nlinks (inode_table s i) \<noteq> 0"
             "\<not> i_dirt (inode_table s i)"
        by blast
      then show "touched i s s' \<and> i_count (inode_table s' i) = i_count (inode_table s i) - 1"
      proof cases
        case many
        with p(2) y show ?thesis by (auto simp: touched_def)
      next
        case unlinked
        with p(2) y pos show ?thesis
          by (auto simp: touched_def free_inode_def truncate_def)
      next
        case dirty
        with p(2) y obtain s1 where w: "write_inode s i = Inr s1"
          and r: "f s1 i = Some (Inr s')"
          by (auto split: sum.splits dest!: wait_on_inode_Inr)
        from write_inode_touched [OF w]
        have t: "touched i s s1" and c1: "i_count (inode_table s1 i) = i_count (inode_table s i)"
          by simp_all
        from p(1) [OF r] pos c1
        have "touched i s1 s'" "i_count (inode_table s' i) = i_count (inode_table s1 i) - 1"
          by simp_all
        with t c1 show ?thesis by (auto intro: touched_trans)
      next
        case clean
        with p(2) y show ?thesis by (auto simp: touched_def)
      qed
    qed
    done
  with c show ?thesis by simp
qed

lemma iput_released:
  assumes a: "iput s (Some i) = Some (Inr s')" and c: "0 \<le> i_count (inode_table s i)"
  shows "touched i s s' \<and> i_count (inode_table s' i) = i_count (inode_table s i) - 1
         \<and> 0 < i_count (inode_table s i) \<and> i < NR_INODE"
proof -
  from a have i: "i < NR_INODE" and nl: "\<not> i_lock (inode_table s i)"
    and nz: "i_count (inode_table s i) \<noteq> 0"
    by (auto simp: iput_def wait_on_inode_def split: if_splits)
  with c have pos: "0 < i_count (inode_table s i)" by simp
  consider (pipe) "i_pipe (inode_table s i)"
    | (nodev) "\<not> i_pipe (inode_table s i)" "i_dev (inode_table s i) = 0"
    | (blk) "\<not> i_pipe (inode_table s i)" "i_dev (inode_table s i) \<noteq> 0"
         "S_ISBLK (i_mode (inode_table s i))"
    | (regular) "\<not> i_pipe (inode_table s i)" "i_dev (inode_table s i) \<noteq> 0"
         "\<not> S_ISBLK (i_mode (inode_table s i))"
    by blast
  then have "touched i s s' \<and> i_count (inode_table s' i) = i_count (inode_table s i) - 1"
  proof cases
    case pipe
    with a i nl nz show ?thesis
      by (auto simp: iput_def wait_on_inode_def touched_def free_page_def Let_def split: if_splits)
  next
    case nodev
    with a i nl nz show ?thesis
      by (auto simp: iput_def wait_on_inode_def touched_def)
  next
    case blk
    define s1 where "s1 = sync_dev (i_zone (inode_table s i) 0) s"
    have t: "inode_table s1 = inode_table s" "super_block s1 = super_block s"
      by (simp_all add: s1_def sync_dev_def)
    from blk a i nl nz have r: "iput_repeat s1 i = Some (Inr s')"
      by (simp add: iput_def wait_on_inode_def s1_def [symmetric] t)
    from iput_repeat_released [OF r] pos show ?thesis
      by (simp add: t touched_def)
  next
    case regular
    with a i nl nz have r: "iput_repeat s i = Some (Inr s')"
      by (simp add: iput_def wait_on_inode_def)
    from iput_repeat_released [OF r pos] show ?thesis .
  qed
  with pos i show ?thesis by simp
qed



lemma to_ushort_nonneg [simp]: "0 \<le> to_ushort x"
  by (simp add: to_ushort_def)



lemma counts_inv_same_ids: "same_ids s s' \<Longrightarrow> counts_inv s \<Longrightarrow> counts_inv s'"
  by (simp add: same_ids_def counts_inv_def)

lemma counts_inv_iput:
  assumes "iput s p = Some (Inr s')" "counts_inv s"
  shows "counts_inv s'"
proof (cases p)
  case None
  with assms show ?thesis by (simp add: iput_def)
next
  case (Some i)
  from assms(1) have i: "i < NR_INODE"
    by (auto simp: Some iput_def split: if_splits)
  with assms(2) have c: "0 \<le> i_count (inode_table s i)" by (simp add: counts_inv_def)
  from iput_released [OF assms(1) [unfolded Some] c]
  have t: "touched i s s'" and d: "i_count (inode_table s' i) = i_count (inode_table s i) - 1"
    and pos: "0 < i_count (inode_table s i)" by simp_all
  show ?thesis
    unfolding counts_inv_def
  proof (intro allI impI)
    fix j assume "j < NR_INODE"
    then show "0 \<le> i_count (inode_table s' j)"
      using assms(2) d pos t by (cases "j = i") (auto simp: counts_inv_def touched_def)
  qed
qed





lemma get_empty_inode_counts:
  assumes a: "get_empty_inode s0 = Some (Inr (s0', r0))" and inv: "counts_inv s0"
  shows "counts_inv s0'"
proof -
  have "\<forall>s' r. (Inr (s0', r0) :: error + kernel \<times> nat option) = Inr (s', r) \<longrightarrow> counts_inv s0 \<longrightarrow>
          counts_inv s'"
    apply (rule get_empty_inode.raw_induct
             [where P = "\<lambda>s y. \<forall>s' r. y = Inr (s', r) \<longrightarrow> counts_inv s \<longrightarrow> counts_inv s'", OF _ a])
    subgoal premises p for f s y
    proof (intro allI impI)
      fix s' r assume y: "y = Inr (s', r)" and inv: "counts_inv s"
      obtain cur cand where sc: "scan_free (inode_table s) NR_INODE (last_inode s) None = (cur, cand)"
        by (cases "scan_free (inode_table s) NR_INODE (last_inode s) None")
      from p(2) y sc obtain i where cand: "cand = Some i"
        by (cases cand) auto
      define sa where "sa = s\<lparr>last_inode := cur\<rparr>"
      have sa: "same_ids s sa" by (simp add: same_ids_def sa_def)
      from p(2) y sc cand obtain sb where w: "write_until_clean sa i = Some (Inr sb)"
        and rest: "(if i_count (inode_table sb i) \<noteq> 0 then f sb
             else Some (Inr (set_inode i (\<lambda>_. zero_inode\<lparr>i_count := 1\<rparr>) sb, Some i))) = Some y"
        by (auto simp: sa_def split: sum.splits option.splits dest!: wait_on_inode_Inr)
      from write_until_clean_same_ids [OF w] sa have sb: "same_ids s sb"
        by (rule same_ids_trans [rotated])
      then have invb: "counts_inv sb" using inv by (rule counts_inv_same_ids)
      show "counts_inv s'"
      proof (cases "i_count (inode_table sb i) \<noteq> 0")
        case True
        with rest have "f sb = Some y" by simp
        from p(1) [OF this] y invb show ?thesis by simp
      next
        case False
        with rest y have "s' = set_inode i (\<lambda>_. zero_inode\<lparr>i_count := 1\<rparr>) sb"
          by simp
        with invb show ?thesis by (simp add: counts_inv_def)
      qed
    qed
    done
  with inv show ?thesis by simp
qed

lemma read_inode_touched:
  "read_inode s i = Inr s' \<Longrightarrow>
   touched i s s' \<and> i_count (inode_table s' i) = i_count (inode_table s i)"
  by (auto simp: read_inode_def lock_inode_def unlock_inode_def touched_def Let_def
        split: if_splits option.splits)







lemma iget_scan_counts:
  assumes a: "iget_scan s0 em0 dev0 nr0 pos0 = Some (Inr (s0', r0))" and inv: "counts_inv s0"
  shows "counts_inv s0'"
proof -
  have "\<forall>s' r. (Inr (s0', r0) :: error + kernel \<times> nat option) = Inr (s', r) \<longrightarrow>
          counts_inv s0 \<longrightarrow> counts_inv s'"
    apply (rule iget_scan.raw_induct
             [where P = "\<lambda>s em dev nr pos y. \<forall>s' r. y = Inr (s', r) \<longrightarrow>
                counts_inv s \<longrightarrow> counts_inv s'", OF _ a])
    subgoal premises p for f s em dev nr pos y
    proof (intro allI impI)
      fix s' r
      assume y: "y = Inr (s', r)" and inv: "counts_inv s"
      note body = p(2) [unfolded y]
      show "counts_inv s'"
      proof (cases "pos < NR_INODE")
        case False
        show ?thesis
        proof (cases em)
          case None
          with body False show ?thesis using inv by simp
        next
          case (Some e)
          with body False
          have rd: "read_inode (set_inode e (\<lambda>ino. ino\<lparr>i_dev := to_ushort dev,
                       i_num := to_ushort nr\<rparr>) s) e = Inr s'"
            by (auto split: sum.splits)
          from read_inode_touched [OF rd]
          have "\<And>j. i_count (inode_table s' j) = i_count (inode_table s j)"
            subgoal for j by (cases "j = e") (auto simp: touched_def)
            done
          with inv show ?thesis by (simp add: counts_inv_def)
        qed
      next
        case inb: True
        show ?thesis
        proof (cases "i_dev (inode_table s pos) \<noteq> dev \<or> i_num (inode_table s pos) \<noteq> nr")
          case True
          with body inb have "f s em dev nr (pos + 1) = Some (Inr (s', r))" by simp
          from p(1) [OF this] inv show ?thesis by simp
        next
          case False
          then have m: "i_dev (inode_table s pos) = dev" "i_num (inode_table s pos) = nr" by simp_all
          define s1 where "s1 = set_inode pos (\<lambda>ino. ino\<lparr>i_count := to_ushort (i_count ino + 1)\<rparr>) s"
          have c1: "counts_inv s1" "counts_inv (k_printk ''Mounted inode hasn't got sb'' [] s1)"
            using inv by (simp_all add: s1_def counts_inv_def)
          from body inb m have nl: "\<not> i_lock (inode_table s pos)"
            by (auto simp: wait_on_inode_def split: if_splits)
          from body inb m nl have body1:
            "(if i_mount (inode_table s1 pos) then
                let i = find_mount (super_block s1) pos NR_SUPER 0 in
                if i \<ge> NR_SUPER then
                  (case iput (k_printk ''Mounted inode hasn't got sb'' [] s1) em of
                     None \<Rightarrow> None
                   | Some (Inl e) \<Rightarrow> Some (Inl e)
                   | Some (Inr s) \<Rightarrow> Some (Inr (s, Some pos)))
                else
                  (case iput s1 (Some pos) of
                     None \<Rightarrow> None
                   | Some (Inl e) \<Rightarrow> Some (Inl e)
                   | Some (Inr s) \<Rightarrow> f s em (s_dev (super_block s i)) ROOT_INO 0)
              else
                (case iput s1 em of
                   None \<Rightarrow> None
                 | Some (Inl e) \<Rightarrow> Some (Inl e)
                 | Some (Inr s) \<Rightarrow> Some (Inr (s, Some pos)))) = Some (Inr (s', r))"
            by (simp add: wait_on_inode_def s1_def [symmetric] Let_def)
          show ?thesis
          proof (cases "i_mount (inode_table s1 pos)")
            case False
            with body1 have "iput s1 em = Some (Inr s')"
              by (auto split: option.splits sum.splits)
            from counts_inv_iput [OF this c1(1)] show ?thesis .
          next
            case True
            show ?thesis
            proof (cases "find_mount (super_block s1) pos NR_SUPER 0 \<ge> NR_SUPER")
              case nosb: True
              with body1 True
              have "iput (k_printk ''Mounted inode hasn't got sb'' [] s1) em = Some (Inr s')"
                by (auto simp: Let_def split: option.splits sum.splits)
              from counts_inv_iput [OF this c1(2)] show ?thesis .
            next
              case False
              define i where "i = find_mount (super_block s1) pos NR_SUPER 0"
              from False body1 True obtain s2 where ip: "iput s1 (Some pos) = Some (Inr s2)"
                and rec: "f s2 em (s_dev (super_block s2 i)) ROOT_INO 0 = Some (Inr (s', r))"
                by (auto simp: Let_def i_def split: option.splits sum.splits)
              from counts_inv_iput [OF ip c1(1)] have "counts_inv s2" .
              with p(1) [OF rec] show ?thesis by simp
            qed
          qed
        qed
      qed
    qed
    done
  with inv show ?thesis by simp
qed

lemma counts_inv_iget:
  assumes "iget s dev nr = Some (Inr (s', p))" "counts_inv s"
  shows "counts_inv s'"
proof -
  from assms(1) obtain s1 em where g: "get_empty_inode s = Some (Inr (s1, em))"
    and sc: "iget_scan s1 em dev nr 0 = Some (Inr (s', p))"
    by (auto simp: iget_def split: if_splits option.splits sum.splits)
  from get_empty_inode_counts [OF g assms(2)] have "counts_inv s1" .
  from iget_scan_counts [OF sc this] show ?thesis .
qed

lemma reachable_counts: "reachable s \<Longrightarrow> counts_inv s"
proof (induction rule: reachable.induct)
  case (init sbs bufs)
  show ?case by (simp add: counts_inv_def zero_inode_def)
next
  case (iget s dev nr s' p)
  then show ?case by (blast intro: counts_inv_iget)
next
  case (iput s p s')
  then show ?case by (blast intro: counts_inv_iput)
next
  case (other s s')
  then show ?case by (blast intro: counts_inv_same_ids)
qed




lemma reachable_ushort_reachable: "reachable_ushort s \<Longrightarrow> reachable s"
  by (induction rule: reachable_ushort.induct) (auto intro: reachable.intros)

lemma iget_scan_skip:
  assumes "\<forall>i. pos \<le> i \<and> i < k \<longrightarrow>
             i_dev (inode_table s i) \<noteq> dev \<or> i_num (inode_table s i) \<noteq> nr"
    and "pos \<le> k" "k \<le> NR_INODE"
  shows "iget_scan s em dev nr pos = iget_scan s em dev nr k"
  using assms
proof (induction "k - pos" arbitrary: pos)
  case 0
  then show ?case by simp
next
  case (Suc n)
  then have lt: "pos < k" "pos < NR_INODE" by auto
  with Suc.prems have m: "i_dev (inode_table s pos) \<noteq> dev \<or> i_num (inode_table s pos) \<noteq> nr"
    by auto
  have "iget_scan s em dev nr pos = iget_scan s em dev nr (pos + 1)"
    using lt m by (subst iget_scan.simps) auto
  also have "\<dots> = iget_scan s em dev nr k"
    using Suc.hyps Suc.prems lt by (intro Suc.hyps(1)) auto
  finally show ?case .
qed


lemma boot_kernel_reachable_ushort: "reachable_ushort boot_kernel"
  unfolding boot_kernel_def example_kernel_def
  using reachable_ushort.init
    [of "\<lambda>_. \<lparr>s_dev = 3, s_imount = None, s_imap_blocks = 1, s_zmap_blocks = 1\<rparr>"
        "\<lambda>_. Some \<lparr>ib_inodes = (\<lambda>_. d_inode.truncate zero_inode), ib_dirt = False\<rparr>"]
  by (simp add: mounts_fit_def fits_ushort_def)

lemma boot_kernel_iget_any:
  assumes "to_ushort nr = 1"
  shows "iget boot_kernel 3 nr = Some (Inr (after_iget, Some 1))"
proof -
  define s1 where "s1 = set_inode (Suc 0) (\<lambda>_. zero_inode\<lparr>i_count := 1\<rparr>) (boot_kernel\<lparr>last_inode := Suc 0\<rparr>)"
  have zc: "i_count zero_inode = 0" "\<not> i_lock zero_inode" "\<not> i_dirt zero_inode"
    "i_dev zero_inode = 0" "i_num zero_inode = 0"
    by (simp_all add: zero_inode_def)
  have tab: "inode_table boot_kernel = (\<lambda>_. zero_inode)" "last_inode boot_kernel = 0"
    by (simp_all add: boot_kernel_def example_kernel_def)
  have sc: "scan_free (\<lambda>_. zero_inode) NR_INODE 0 None = (Suc 0, Some (Suc 0))"
    by (simp add: NR_INODE_def eval_nat_numeral zc)
  have w: "write_until_clean (boot_kernel\<lparr>last_inode := Suc 0\<rparr>) (Suc 0)
      = Some (Inr (boot_kernel\<lparr>last_inode := Suc 0\<rparr>))"
    by (subst write_until_clean.simps) (simp add: tab zc)
  have g: "get_empty_inode boot_kernel = Some (Inr (s1, Some (Suc 0)))"
    by (subst get_empty_inode.simps) (simp add: sc w wait_on_inode_def tab zc s1_def)
  have keys: "\<forall>i. 0 \<le> i \<and> i < NR_INODE \<longrightarrow>
       i_dev (inode_table s1 i) \<noteq> 3 \<or> i_num (inode_table s1 i) \<noteq> nr"
    by (simp add: s1_def tab zc)
  have rd: "read_inode (set_inode (Suc 0) (\<lambda>ino. ino\<lparr>i_dev := 3, i_num := 1\<rparr>) s1) (Suc 0)
      = Inr after_iget"
    by (simp add: read_inode_def lock_inode_def unlock_inode_def get_super_def NR_SUPER_def
          eval_nat_numeral s1_def boot_kernel_def example_kernel_def after_iget_def
          set_inode_def zero_inode_def d_inode.truncate_def Let_def)
  have three: "to_ushort 3 = 3" by (simp add: to_ushort_def)
  have "iget boot_kernel 3 nr = iget_scan s1 (Some (Suc 0)) 3 nr 0"
    by (simp add: iget_def g)
  also have "\<dots> = iget_scan s1 (Some (Suc 0)) 3 nr NR_INODE"
    using keys by (intro iget_scan_skip) auto
  also have "\<dots> = Some (Inr (after_iget, Some 1))"
    by (subst iget_scan.simps) (simp add: rd three assms)
  finally show ?thesis .
qed

lemma boot_kernel_iget: "iget boot_kernel 3 1 = Some (Inr (after_iget, Some 1))"
  by (rule boot_kernel_iget_any) (simp add: to_ushort_def)

lemma after_iget_reachable_ushort: "reachable_ushort after_iget"
  using boot_kernel_reachable_ushort _ _ boot_kernel_iget
  by (rule reachable_ushort.iget) (simp_all add: fits_ushort_def)

lemma after_iget_reachable: "reachable after_iget"
  using after_iget_reachable_ushort by (rule reachable_ushort_reachable)

lemma after_iget_iput:
  "iput after_iget (Some (Suc 0)) =
     Some (Inr (free_inode (truncate after_iget (Suc 0)) (Suc 0)))"
  by (subst iput_def)
     (simp add: wait_on_inode_def after_iget_def zero_inode_def NR_INODE_def S_ISBLK_def,
      subst iput_repeat.simps, simp)








text \<open>
  C6.  \<open>iput\<close> on an unlocked inode whose count is 0 panics with
  ``iput: trying to free free inode'' and decrements nothing.  In every state reached
  by calls of \<open>iget\<close> and \<open>iput\<close> no slot has a negative count, and whenever \<open>iput\<close>
  returns from such a state the count it found was positive and the count it leaves
  is one less.
\<close>

theorem iput_never_below_zero:
  "(i < NR_INODE \<and> \<not> i_lock (inode_table s i) \<and> i_count (inode_table s i) = 0
      \<longrightarrow> iput s (Some i) = Some (Inl (Panic ''iput: trying to free free inode'')))
   \<and> (reachable s \<longrightarrow> (\<forall>j<NR_INODE. 0 \<le> i_count (inode_table s j)))
   \<and> (\<forall>s'. reachable s \<and> iput s (Some i) = Some (Inr s') \<longrightarrow>
         0 < i_count (inode_table s i) \<and>
         i_count (inode_table s' i) = i_count (inode_table s i) - 1)"
proof (intro conjI allI impI)
  assume "i < NR_INODE \<and> \<not> i_lock (inode_table s i) \<and> i_count (inode_table s i) = 0"
  then show "iput s (Some i) = Some (Inl (Panic ''iput: trying to free free inode''))"
    by (simp add: iput_free_inode_panics)
next
  fix j assume "reachable s" "j < NR_INODE"
  then show "0 \<le> i_count (inode_table s j)"
    using reachable_counts [of s] by (simp add: counts_inv_def)
next
  fix s' assume a: "reachable s \<and> iput s (Some i) = Some (Inr s')"
  then have ip: "iput s (Some i) = Some (Inr s')" and inv: "counts_inv s"
    by (simp_all add: reachable_counts)
  from ip have "i < NR_INODE" by (auto simp: iput_def split: if_splits)
  with inv have "0 \<le> i_count (inode_table s i)" by (simp add: counts_inv_def)
  from iput_released [OF ip this]
  show "0 < i_count (inode_table s i)"
    and "i_count (inode_table s' i) = i_count (inode_table s i) - 1"
    by simp_all
qed

theorem iput_never_below_zero_witness:
  "iput boot_kernel (Some 0) = Some (Inl (Panic ''iput: trying to free free inode''))
   \<and> 0 \<le> i_count (inode_table after_iget 1)
   \<and> map_option (map_sum id (\<lambda>s'. i_count (inode_table s' 1))) (iput after_iget (Some 1))
       = Some (Inr 0)"
proof -
  have b: "0 < NR_INODE \<and> \<not> i_lock (inode_table boot_kernel 0) \<and>
           i_count (inode_table boot_kernel 0) = 0"
    by (simp add: NR_INODE_def boot_kernel_def zero_inode_def)
  have c: "i_count (inode_table after_iget (Suc 0)) = 1" "Suc 0 < NR_INODE"
    by (simp_all add: after_iget_def NR_INODE_def)
  note T0 = iput_never_below_zero [of 0 boot_kernel]
  note T1 = iput_never_below_zero [of "Suc 0" after_iget]
  from T0 b have 1: "iput boot_kernel (Some 0) = Some (Inl (Panic ''iput: trying to free free inode''))"
    by blast
  from T1 after_iget_reachable c have 2: "0 \<le> i_count (inode_table after_iget (Suc 0))"
    by blast
  from T1 after_iget_reachable after_iget_iput
  have "i_count (inode_table (free_inode (truncate after_iget (Suc 0)) (Suc 0)) (Suc 0))
          = i_count (inode_table after_iget (Suc 0)) - 1"
    by blast
  with c have 3: "map_option (map_sum id (\<lambda>s'. i_count (inode_table s' (Suc 0))))
        (iput after_iget (Some (Suc 0))) = Some (Inr 0)"
    by (simp add: after_iget_iput)
  from 1 2 3 show ?thesis by simp
qed




end
